theory Spec2Isabelle
  imports Complex_Main
begin

section \<open>Values of the route aggregator\<close>

text \<open>
  The route aggregator (\<^verbatim>\<open>scripts/processed_enhanced_last_mile_data.py\<close>) works on what
  \<^verbatim>\<open>json.load\<close> returns: \<^verbatim>\<open>None\<close>, booleans, integers, floats, strings, lists and
  dictionaries. A dictionary is the list of its items in insertion order (its keys are
  distinct, as \<^verbatim>\<open>json.load\<close> builds them) and is looked up with \<open>map_of\<close>.
  Numbers are exact: a Python \<^verbatim>\<open>float\<close> is taken as the rational it denotes and the
  rounding of floating-point arithmetic is not part of the model.
\<close>

datatype json =
    JNull
  | JBool bool
  | JInt int
  | JFloat rat
  | JStr string
  | JArr "json list"
  | JObj "(string \<times> json) list"

text \<open>The exceptions the two scripts can meet.\<close>

datatype error =
    TypeError
  | AttributeError
  | JSONDecodeError
  | FileNotFoundError
  | OverflowError
  | OtherError

text \<open>Sequencing of two steps, the first of which may raise.\<close>

definition ebind :: "error + 'a \<Rightarrow> ('a \<Rightarrow> error + 'b) \<Rightarrow> error + 'b" where
  "ebind m f = (case m of Inl e \<Rightarrow> Inl e | Inr x \<Rightarrow> f x)"

text \<open>Python's truth value (\<^verbatim>\<open>bool(x)\<close>, \<^verbatim>\<open>if x:\<close>, \<^verbatim>\<open>not x\<close>).\<close>

fun truthy :: "json \<Rightarrow> bool" where
  "truthy JNull = False"
| "truthy (JBool b) = b"
| "truthy (JInt n) = (n \<noteq> 0)"
| "truthy (JFloat x) = (x \<noteq> 0)"
| "truthy (JStr s) = (s \<noteq> [])"
| "truthy (JArr xs) = (xs \<noteq> [])"
| "truthy (JObj d) = (d \<noteq> [])"

text \<open>\<^verbatim>\<open>a or b\<close>: the first operand when it is true, the second otherwise.\<close>

definition py_or :: "json \<Rightarrow> json \<Rightarrow> json" where
  "py_or a b = (if truthy a then a else b)"

text \<open>\<^verbatim>\<open>isinstance(x, dict)\<close>.\<close>

fun is_dict :: "json \<Rightarrow> bool" where
  "is_dict (JObj d) = True"
| "is_dict _ = False"

text \<open>\<^verbatim>\<open>d.get(k, default)\<close>, \<^verbatim>\<open>d.get(k)\<close> (default \<^verbatim>\<open>None\<close>) and \<^verbatim>\<open>k in d\<close> on a dictionary.\<close>

definition dict_get_default :: "(string \<times> json) list \<Rightarrow> string \<Rightarrow> json \<Rightarrow> json" where
  "dict_get_default d k dflt = (case map_of d k of None \<Rightarrow> dflt | Some v \<Rightarrow> v)"

definition dict_get :: "(string \<times> json) list \<Rightarrow> string \<Rightarrow> json" where
  "dict_get d k = dict_get_default d k JNull"

definition has_key :: "(string \<times> json) list \<Rightarrow> string \<Rightarrow> bool" where
  "has_key d k = (map_of d k \<noteq> None)"

text \<open>
  \<^verbatim>\<open>x.get(k)\<close> on any value: only a dictionary has the method, every other value
  raises \<^verbatim>\<open>AttributeError\<close>.
\<close>

fun get_method :: "json \<Rightarrow> string \<Rightarrow> error + json" where
  "get_method (JObj d) k = Inr (dict_get d k)"
| "get_method _ k = Inl AttributeError"

text \<open>\<^verbatim>\<open>x.keys()\<close> and \<^verbatim>\<open>x.values()\<close> on any value.\<close>

fun keys_method :: "json \<Rightarrow> error + string list" where
  "keys_method (JObj d) = Inr (map fst d)"
| "keys_method _ = Inl AttributeError"

fun values_method :: "json \<Rightarrow> error + json list" where
  "values_method (JObj d) = Inr (map snd d)"
| "values_method _ = Inl AttributeError"

text \<open>\<^verbatim>\<open>len(x)\<close>: defined on strings, lists and dictionaries, a \<^verbatim>\<open>TypeError\<close> elsewhere.\<close>

fun py_len :: "json \<Rightarrow> error + nat" where
  "py_len (JStr s) = Inr (length s)"
| "py_len (JArr xs) = Inr (length xs)"
| "py_len (JObj d) = Inr (length d)"
| "py_len _ = Inl TypeError"

text \<open>
  The number a value stands for in \<^verbatim>\<open>+\<close> and \<^verbatim>\<open>*\<close> with a number: integers, floats and
  booleans (\<^verbatim>\<open>True\<close> is 1). With any other operand the sums and products of
  \<^verbatim>\<open>process_single_route_data\<close> end in a \<^verbatim>\<open>TypeError\<close>.
\<close>

fun to_num :: "json \<Rightarrow> error + rat" where
  "to_num (JInt n) = Inr (of_int n)"
| "to_num (JFloat x) = Inr x"
| "to_num (JBool b) = Inr (if b then 1 else 0)"
| "to_num _ = Inl TypeError"

text \<open>\<^verbatim>\<open>acc + v\<close> and \<^verbatim>\<open>a * b * c\<close> on numbers.\<close>

definition py_add :: "rat \<Rightarrow> json \<Rightarrow> error + rat" where
  "py_add acc v = ebind (to_num v) (\<lambda>x. Inr (acc + x))"

definition py_mul3 :: "json \<Rightarrow> json \<Rightarrow> json \<Rightarrow> error + rat" where
  "py_mul3 a b c =
     ebind (to_num a) (\<lambda>x. ebind (to_num b) (\<lambda>y. ebind (to_num c) (\<lambda>z. Inr (x * y * z))))"

text \<open>\<^verbatim>\<open>p in s\<close> on two strings: \<open>p\<close> occurs in \<open>s\<close> as a contiguous piece.\<close>

fun starts_with :: "string \<Rightarrow> string \<Rightarrow> bool" where
  "starts_with [] s = True"
| "starts_with (c # p) [] = False"
| "starts_with (c # p) (x # s) = (c = x \<and> starts_with p s)"

fun str_contains :: "string \<Rightarrow> string \<Rightarrow> bool" where
  "str_contains p [] = (p = [])"
| "str_contains p (x # s) = (starts_with p (x # s) \<or> str_contains p s)"

text \<open>
  \<^verbatim>\<open>k in x\<close> for a string \<open>k\<close> and any value \<open>x\<close>: a key test on a dictionary, a
  substring test on a string, a membership test on a list, and a \<^verbatim>\<open>TypeError\<close> on
  \<^verbatim>\<open>None\<close> and on numbers, which are not iterable.
\<close>

fun py_in :: "string \<Rightarrow> json \<Rightarrow> error + bool" where
  "py_in k (JObj d) = Inr (has_key d k)"
| "py_in k (JStr s) = Inr (str_contains k s)"
| "py_in k (JArr xs) = Inr (JStr k \<in> set xs)"
| "py_in k _ = Inl TypeError"


section \<open>The JSON loader\<close>

text \<open>
  What \<^verbatim>\<open>load_json_file\<close> sees of a path: whether \<^verbatim>\<open>os.path.exists\<close> holds, and what
  \<^verbatim>\<open>open\<close> followed by \<^verbatim>\<open>json.load\<close> does there, either the parsed content or the
  exception raised (\<open>JSONDecodeError\<close> for an empty or malformed file, any other
  exception for a file that cannot be opened or read).
\<close>

record file_state =
  path_exists :: bool
  open_and_load :: "error + json"

type_synonym filesystem = "string \<Rightarrow> file_state"

definition load_json_file :: "filesystem \<Rightarrow> string \<Rightarrow> error + json" where
  "load_json_file fs filepath =
     (if \<not> path_exists (fs filepath) then Inr (JObj [])
      else (case open_and_load (fs filepath) of
              Inr content \<Rightarrow> (if \<not> truthy content then Inr (JObj []) else Inr content)
            | Inl JSONDecodeError \<Rightarrow> Inr (JObj [])
            | Inl e \<Rightarrow> Inr (JObj [])))"


section \<open>One route\<close>

text \<open>The dictionary \<^verbatim>\<open>process_single_route_data\<close> returns, one field per key.\<close>

record route_metrics =
  route_id :: string
  city :: json
  route_date :: json
  station_code :: json
  route_score :: json
  origin_latitude :: json
  origin_longitude :: json
  vehicle_capacity_cm3 :: json
  num_deliveries :: nat
  total_calculated_volume_cm3 :: rat
  actual_route_duration_hours :: rat
  actual_route_distance_km :: rat

text \<open>
  The loop over \<^verbatim>\<open>stops_data_from_route_json.items()\<close>: the two accumulators are
  \<^verbatim>\<open>total_travel_time_seconds\<close> and \<^verbatim>\<open>total_planned_service_time_seconds\<close>.
\<close>

fun stops_loop :: "(string \<times> json) list \<Rightarrow> rat \<times> rat \<Rightarrow> error + rat \<times> rat" where
  "stops_loop [] acc = Inr acc"
| "stops_loop ((stop_id, stop_detail) # rest) (travel, service) =
     (case stop_detail of
        JObj sd \<Rightarrow>
          ebind (py_add travel (dict_get_default sd ''travel_time_to_next_stop_in_seconds'' (JInt 0)))
            (\<lambda>travel'.
          ebind (py_add service (dict_get_default sd ''planned_service_time_seconds'' (JInt 0)))
            (\<lambda>service'. stops_loop rest (travel', service')))
      | _ \<Rightarrow> stops_loop rest (travel, service))"

text \<open>
  The duration computed from the value of \<^verbatim>\<open>route_details.get('stops', {})\<close>; the
  initial value \<open>0.0\<close> stays when the value is empty or not a dictionary.
\<close>

definition stops_duration :: "json \<Rightarrow> error + rat" where
  "stops_duration stops =
     (case stops of
        JObj sd \<Rightarrow>
          (if truthy stops then
             ebind (stops_loop sd (0, 0)) (\<lambda>(travel, service).
               let hours = (travel + service) / 3600
               in Inr (if hours < 0 then 0 else hours))
           else Inr 0)
      | _ \<Rightarrow> Inr 0)"

text \<open>The loop over \<^verbatim>\<open>packages_list_values\<close>, adding to \<^verbatim>\<open>total_calculated_volume_cm3\<close>.\<close>

fun packages_loop :: "json list \<Rightarrow> rat \<Rightarrow> error + rat" where
  "packages_loop [] vol = Inr vol"
| "packages_loop (pkg # rest) vol =
     ebind (py_in ''dimensions'' pkg) (\<lambda>present.
       if present then
         ebind (get_method pkg ''dimensions'') (\<lambda>dims.
           case dims of
             JObj dm \<Rightarrow>
               ebind (py_mul3 (dict_get_default dm ''depth_cm'' (JInt 0))
                              (dict_get_default dm ''height_cm'' (JInt 0))
                              (dict_get_default dm ''width_cm'' (JInt 0)))
                 (\<lambda>v. packages_loop rest (vol + v))
           | _ \<Rightarrow> packages_loop rest vol)
       else packages_loop rest vol)"

text \<open>
  \<^verbatim>\<open>inner_packages_dict\<close>: the value under \<open>AD\<close> (default the empty dictionary), replaced
  by the value under \<open>packages\<close> when the first is empty and the second is a dictionary.
\<close>

definition inner_packages_dict :: "(string \<times> json) list \<Rightarrow> json" where
  "inner_packages_dict pd =
     (let inner = dict_get_default pd ''AD'' (JObj [])
      in if \<not> truthy inner \<and> has_key pd ''packages'' \<and> is_dict (dict_get pd ''packages'')
         then dict_get pd ''packages'' else inner)"

text \<open>
  The body of \<^verbatim>\<open>process_single_route_data\<close>. The sequence details are a parameter
  that the body never reads.
\<close>

definition process_single_route_data ::
  "string \<Rightarrow> json \<Rightarrow> json \<Rightarrow> json \<Rightarrow> error + route_metrics" where
  "process_single_route_data rid route_details package_details_for_route actual_sequences_for_route =
     ebind
       (if truthy route_details then
          (case route_details of
             JObj rd \<Rightarrow>
               ebind (stops_duration (dict_get_default rd ''stops'' (JObj []))) (\<lambda>hours.
                 Inr \<lparr> route_id = rid,
                       city = dict_get_default rd ''city'' (JStr ''Unknown''),
                       route_date = py_or (dict_get rd ''date_YYYY_MM_DD'') (dict_get rd ''date''),
                       station_code = dict_get rd ''station_code'',
                       route_score = dict_get rd ''route_score'',
                       origin_latitude =
                         (case dict_get rd ''origin'' of
                            JObj org \<Rightarrow> if has_key rd ''origin'' then dict_get org ''latitude'' else JNull
                          | _ \<Rightarrow> JNull),
                       origin_longitude =
                         (case dict_get rd ''origin'' of
                            JObj org \<Rightarrow> if has_key rd ''origin'' then dict_get org ''longitude'' else JNull
                          | _ \<Rightarrow> JNull),
                       vehicle_capacity_cm3 =
                         py_or (dict_get rd ''executor_capacity_cm3'') (dict_get rd ''vehicleCapacity''),
                       num_deliveries = 0,
                       total_calculated_volume_cm3 = 0,
                       actual_route_duration_hours = hours,
                       actual_route_distance_km = 0 \<rparr>)
           | _ \<Rightarrow> Inl AttributeError)
        else
          Inr \<lparr> route_id = rid, city = JStr ''Unknown'', route_date = JNull,
                station_code = JNull, route_score = JNull, origin_latitude = JNull,
                origin_longitude = JNull, vehicle_capacity_cm3 = JNull, num_deliveries = 0,
                total_calculated_volume_cm3 = 0, actual_route_duration_hours = 0,
                actual_route_distance_km = 0 \<rparr>)
       (\<lambda>m.
          if truthy package_details_for_route then
            (case package_details_for_route of
               JObj pd \<Rightarrow>
                 ebind (values_method (inner_packages_dict pd)) (\<lambda>packages_list_values.
                 ebind (packages_loop packages_list_values 0) (\<lambda>vol.
                   Inr (m\<lparr> num_deliveries := length packages_list_values,
                            total_calculated_volume_cm3 := vol \<rparr>)))
             | _ \<Rightarrow> Inl AttributeError)
          else Inr m)"


section \<open>All routes\<close>

text \<open>
  The nine documents the main block of the route aggregator loads, named as its
  variables are. Each is the result of \<^verbatim>\<open>load_json_file\<close>.
\<close>

record sources =
  route_data_build :: json
  package_data_build :: json
  actual_sequences_build :: json
  route_data_apply :: json
  package_data_apply :: json
  actual_sequences_apply :: json
  route_data_eval :: json
  package_data_eval :: json
  actual_sequences_eval :: json

definition RAW_META_DATA_DIR :: string where
  "RAW_META_DATA_DIR = ''data/last_mile_raw/almrrc2021-data-training''"

definition RAW_EVAL_DATA_DIR :: string where
  "RAW_EVAL_DATA_DIR = ''data/last_mile_raw/almrrc2021-data-evaluation''"

text \<open>\<^verbatim>\<open>os.path.join\<close> of a directory, a subdirectory and a file name.\<close>

definition path_join :: "string \<Rightarrow> string \<Rightarrow> string \<Rightarrow> string" where
  "path_join dir sub name = dir @ ''/'' @ sub @ ''/'' @ name"

definition load_sources :: "filesystem \<Rightarrow> error + sources" where
  "load_sources fs =
     ebind (load_json_file fs (path_join RAW_META_DATA_DIR ''model_build_inputs'' ''route_data.json'')) (\<lambda>rb.
     ebind (load_json_file fs (path_join RAW_META_DATA_DIR ''model_build_inputs'' ''package_data.json'')) (\<lambda>pb.
     ebind (load_json_file fs (path_join RAW_META_DATA_DIR ''model_build_inputs'' ''actual_sequences.json'')) (\<lambda>sb.
     ebind (load_json_file fs (path_join RAW_META_DATA_DIR ''model_apply_inputs'' ''new_route_data.json'')) (\<lambda>ra.
     ebind (load_json_file fs (path_join RAW_META_DATA_DIR ''model_apply_inputs'' ''new_package_data.json'')) (\<lambda>pa.
     ebind (load_json_file fs (path_join RAW_META_DATA_DIR ''model_score_inputs'' ''new_actual_sequences.json'')) (\<lambda>sa.
     ebind (load_json_file fs (path_join RAW_EVAL_DATA_DIR ''model_apply_inputs'' ''eval_route_data.json'')) (\<lambda>re.
     ebind (load_json_file fs (path_join RAW_EVAL_DATA_DIR ''model_apply_inputs'' ''eval_package_data.json'')) (\<lambda>pe.
     ebind (load_json_file fs (path_join RAW_EVAL_DATA_DIR ''model_score_inputs'' ''eval_actual_sequences.json'')) (\<lambda>se.
       Inr \<lparr> route_data_build = rb, package_data_build = pb, actual_sequences_build = sb,
             route_data_apply = ra, package_data_apply = pa, actual_sequences_apply = sa,
             route_data_eval = re, package_data_eval = pe, actual_sequences_eval = se \<rparr>)))))))))"

text \<open>
  The nine \<^verbatim>\<open>len(...)\<close> calls of the \<^verbatim>\<open>DEBUG\<close> prints that follow the loads: the prints
  are not modelled, the exception of \<^verbatim>\<open>len\<close> on a document that has no length is.
\<close>

definition debug_counts :: "sources \<Rightarrow> error + unit" where
  "debug_counts src =
     ebind (py_len (route_data_build src)) (\<lambda>_.
     ebind (py_len (package_data_build src)) (\<lambda>_.
     ebind (py_len (actual_sequences_build src)) (\<lambda>_.
     ebind (py_len (route_data_apply src)) (\<lambda>_.
     ebind (py_len (package_data_apply src)) (\<lambda>_.
     ebind (py_len (actual_sequences_apply src)) (\<lambda>_.
     ebind (py_len (route_data_eval src)) (\<lambda>_.
     ebind (py_len (package_data_eval src)) (\<lambda>_.
     ebind (py_len (actual_sequences_eval src)) (\<lambda>_. Inr ())))))))))"

text \<open>\<^verbatim>\<open>if doc: all_route_ids_to_process.update(doc.keys())\<close>, as the keys it adds.\<close>

definition keys_if_truthy :: "json \<Rightarrow> error + string list" where
  "keys_if_truthy doc = (if truthy doc then keys_method doc else Inr [])"

text \<open>
  \<^verbatim>\<open>all_route_ids_to_process\<close>. The source holds the identifiers in a set, whose
  iteration order Python leaves open; the model lists them without repetition in the
  order of first insertion.
\<close>

definition all_route_ids_to_process :: "sources \<Rightarrow> error + string list" where
  "all_route_ids_to_process src =
     ebind (keys_if_truthy (route_data_build src)) (\<lambda>kb.
     ebind (keys_if_truthy (route_data_apply src)) (\<lambda>ka.
     ebind (keys_if_truthy (route_data_eval src)) (\<lambda>ke.
       Inr (remdups (kb @ ka @ ke)))))"

text \<open>
  \<^verbatim>\<open>build.get(route_id) or apply.get(route_id) or eval.get(route_id)\<close>: \<^verbatim>\<open>or\<close> evaluates
  its right operand only when the left one is not true.
\<close>

definition resolve :: "json \<Rightarrow> json \<Rightarrow> json \<Rightarrow> string \<Rightarrow> error + json" where
  "resolve build apply eval rid =
     ebind (get_method build rid) (\<lambda>b.
       if truthy b then Inr b
       else ebind (get_method apply rid) (\<lambda>a.
         if truthy a then Inr a else get_method eval rid))"

text \<open>The three records of a route identifier, resolved at the top of the loop body.\<close>

definition resolved_route :: "sources \<Rightarrow> string \<Rightarrow> error + json" where
  "resolved_route src rid =
     resolve (route_data_build src) (route_data_apply src) (route_data_eval src) rid"

definition resolved_packages :: "sources \<Rightarrow> string \<Rightarrow> error + json" where
  "resolved_packages src rid =
     resolve (package_data_build src) (package_data_apply src) (package_data_eval src) rid"

definition resolved_sequences :: "sources \<Rightarrow> string \<Rightarrow> error + json" where
  "resolved_sequences src rid =
     resolve (actual_sequences_build src) (actual_sequences_apply src)
       (actual_sequences_eval src) rid"

text \<open>\<^verbatim>\<open>len(x) if x else 0\<close> of the per-route \<^verbatim>\<open>DEBUG\<close> prints.\<close>

definition debug_len :: "json \<Rightarrow> error + nat" where
  "debug_len x = (if truthy x then py_len x else Inr 0)"

text \<open>
  One iteration of the loop over the route identifiers, on the list
  \<^verbatim>\<open>all_processed_routes\<close>. The counter \<^verbatim>\<open>processed_first_few_debug\<close> is never
  incremented in the source, so the \<^verbatim>\<open>DEBUG\<close> block runs in every iteration. The
  dictionary \<^verbatim>\<open>process_single_route_data\<close> returns has twelve keys and is always true.
\<close>

definition route_step :: "sources \<Rightarrow> string \<Rightarrow> route_metrics list \<Rightarrow> error + route_metrics list" where
  "route_step src rid all_processed_routes =
     ebind (resolved_route src rid) (\<lambda>route_details.
     ebind (resolved_packages src rid) (\<lambda>package_details.
     ebind (resolved_sequences src rid) (\<lambda>actual_sequences.
     ebind (debug_len route_details) (\<lambda>_.
     ebind (debug_len package_details) (\<lambda>_.
     ebind (debug_len actual_sequences) (\<lambda>_.
       if \<not> (truthy route_details \<and> truthy package_details) then Inr all_processed_routes
       else
         ebind (process_single_route_data rid route_details package_details actual_sequences)
           (\<lambda>processed_metrics. Inr (all_processed_routes @ [processed_metrics]))))))))"

fun routes_loop :: "sources \<Rightarrow> string list \<Rightarrow> route_metrics list \<Rightarrow> error + route_metrics list" where
  "routes_loop src [] all_processed_routes = Inr all_processed_routes"
| "routes_loop src (rid # rest) all_processed_routes =
     ebind (route_step src rid all_processed_routes) (routes_loop src rest)"

text \<open>
  The main block after the loads, up to the list the output table is built from. The
  two \<^verbatim>\<open>exit()\<close> calls leave with nothing written, which is the empty list here.
\<close>

definition aggregate_routes :: "sources \<Rightarrow> error + route_metrics list" where
  "aggregate_routes src =
     ebind (debug_counts src) (\<lambda>_.
     ebind (all_route_ids_to_process src) (\<lambda>ids.
       if ids = [] then Inr []
       else routes_loop src ids []))"

definition main_routes :: "filesystem \<Rightarrow> error + route_metrics list" where
  "main_routes fs = ebind (load_sources fs) aggregate_routes"


section \<open>Strings and numbers of the order generator\<close>

text \<open>
  The order generator (\<^verbatim>\<open>scripts/data_generation.py\<close>) formats integers and pads
  strings. A string is the list of its characters, a character being a code point
  below 256 (the Latin-1 part of Unicode); code points from 256 on are outside the
  model.
\<close>

definition digit_char :: "nat \<Rightarrow> char" where
  "digit_char n = char_of (48 + n)"

text \<open>The ten decimal digits \<open>0\<close> to \<open>9\<close>.\<close>

definition decimal_digit :: "char \<Rightarrow> bool" where
  "decimal_digit c = (48 \<le> (of_char c :: nat) \<and> (of_char c :: nat) \<le> 57)"

text \<open>
  The characters \<^verbatim>\<open>str.isdigit\<close> accepts: the decimal digits and, below 256, the
  superscript digits two, three and one (U+00B2, U+00B3, U+00B9), which Unicode
  classifies as digits.
\<close>

definition is_digit :: "char \<Rightarrow> bool" where
  "is_digit c = (decimal_digit c \<or> c = CHR 0xB2 \<or> c = CHR 0xB3 \<or> c = CHR 0xB9)"

text \<open>\<^verbatim>\<open>str(n)\<close> for an integer: decimal digits, a minus sign before a negative one.\<close>

fun str_nat :: "nat \<Rightarrow> string" where
  "str_nat n = (if n < 10 then [digit_char n] else str_nat (n div 10) @ [digit_char (n mod 10)])"

declare str_nat.simps [simp del]

definition str_int :: "int \<Rightarrow> string" where
  "str_int i = (if i < 0 then CHR ''-'' # str_nat (nat (- i)) else str_nat (nat i))"

text \<open>
  \<^verbatim>\<open>s.zfill(width)\<close>: zeros on the left up to the width, after a leading sign when
  there is one; a string that is long enough is returned as it is.
\<close>

definition zfill :: "nat \<Rightarrow> string \<Rightarrow> string" where
  "zfill width s =
     (if width \<le> length s then s
      else (case s of
              c # rest \<Rightarrow>
                (if c = CHR ''+'' \<or> c = CHR ''-''
                 then c # replicate (width - length s) CHR ''0'' @ rest
                 else replicate (width - length s) CHR ''0'' @ s)
            | [] \<Rightarrow> replicate width CHR ''0''))"

text \<open>The format \<^verbatim>\<open>{i:0wd}\<close> of an f-string: the decimal digits, zero-filled to width w.\<close>

definition format_0d :: "nat \<Rightarrow> int \<Rightarrow> string" where
  "format_0d width i = zfill width (str_int i)"

text \<open>
  \<^verbatim>\<open>s.isdigit()\<close>: at least one character, and all of them digits in the sense of
  \<^verbatim>\<open>str.isdigit\<close>.
\<close>

definition isdigit :: "string \<Rightarrow> bool" where
  "isdigit s = (s \<noteq> [] \<and> list_all is_digit s)"

text \<open>\<^verbatim>\<open>round(x)\<close>: the nearest integer, a tie going to the even one.\<close>

definition py_round :: "rat \<Rightarrow> int" where
  "py_round x =
     (let f = \<lfloor>x\<rfloor>; d = x - of_int f
      in if d < 1 / 2 then f
         else if 1 / 2 < d then f + 1
         else if even f then f else f + 1)"

text \<open>
  A Python \<^verbatim>\<open>float\<close> of the order generator is an IEEE 754 double, modelled as the
  rational number it denotes; every arithmetic operation rounds its exact result to
  the nearest double, a tie going to the even significand. For a positive number
  \<open>sig_exp\<close> is the exponent that brings it into the range of a 53-bit significand,
  from \<open>2 ^ 52\<close> up to \<open>2 ^ 53\<close>. Overflow, subnormal numbers, infinities and \<open>NaN\<close>
  are outside the model: the numbers of the generator stay far from them.
\<close>

function sig_exp :: "rat \<Rightarrow> int" where
  "sig_exp x =
     (if x \<le> 0 then 0
      else if x < 2 ^ 52 then sig_exp (2 * x) - 1
      else if 2 ^ 53 \<le> x then sig_exp (x / 2) + 1
      else 0)"
  by pat_completeness auto
termination
proof (relation "measures [\<lambda>x. nat \<lceil>2 ^ 52 / x\<rceil>, \<lambda>x. nat \<lceil>x\<rceil>]", goal_cases)
  case 1
  then show ?case by simp
next
  have half: "\<lceil>y / 2\<rceil> < \<lceil>y\<rceil>" if y: "1 < y" for y :: rat
  proof -
    from y have "2 \<le> \<lceil>y\<rceil>" by linarith
    then have "of_int \<lceil>y\<rceil> / 2 \<le> (of_int (\<lceil>y\<rceil> - 1) :: rat)" by simp
    moreover have "y / 2 \<le> of_int \<lceil>y\<rceil> / 2" by (simp add: divide_right_mono)
    ultimately have "y / 2 \<le> of_int (\<lceil>y\<rceil> - 1)" by linarith
    then have "\<lceil>y / 2\<rceil> \<le> \<lceil>y\<rceil> - 1" by (simp only: ceiling_le_iff)
    then show ?thesis by simp
  qed
  {
    case (2 x)
    then have "1 < 2 ^ 52 / x" by simp
    from half [OF this] have "\<lceil>2 ^ 52 / (2 * x)\<rceil> < \<lceil>2 ^ 52 / x\<rceil>"
      by (simp add: field_simps)
    moreover from 2 have "0 < \<lceil>2 ^ 52 / x\<rceil>" by simp
    ultimately show ?case by simp
  next
    case (3 x)
    then have x: "2 ^ 53 \<le> x" by simp
    then have a: "\<lceil>2 ^ 52 / x\<rceil> = 1" by (intro ceiling_unique) (simp_all add: field_simps)
    from x have b: "\<lceil>2 ^ 52 / (x / 2)\<rceil> = 1" by (intro ceiling_unique) (simp_all add: field_simps)
    from x have "1 < x" by simp
    from half [OF this] x have "nat \<lceil>x / 2\<rceil> < nat \<lceil>x\<rceil>" by simp
    with a b show ?case by simp
  }
qed

declare sig_exp.simps [simp del]

text \<open>The nearest double.\<close>

definition fl :: "rat \<Rightarrow> rat" where
  "fl x = (if x = 0 then 0
           else let s = 2 powi (sig_exp \<bar>x\<bar>) in of_int (py_round (x / s)) * s)"

text \<open>
  \<^verbatim>\<open>round(x, 2)\<close> on a double: the exact value of \<open>x\<close> is rounded to a whole number
  of hundredths, a tie going to the even one, and the result is the double nearest
  to that decimal number.
\<close>

definition py_round2 :: "rat \<Rightarrow> rat" where
  "py_round2 x = fl (of_int (py_round (x * 100)) / 100)"


section \<open>The ZIP code loader\<close>

text \<open>
  A cell of the table \<^verbatim>\<open>pd.read_csv\<close> returns: an integer (a column of whole numbers),
  a float (a numeric column with a decimal point or with a blank, which makes
  the whole column \<open>float64\<close>), a string (a column of text), or the missing value \<open>NaN\<close>
  of a float or text column. \<^verbatim>\<open>astype(str)\<close> turns a cell into its string; how a
  float is printed is the library's matter and is the parameter \<open>float_str\<close> here, and
  \<open>NaN\<close> becomes \<^verbatim>\<open>'nan'\<close>, as pandas before version 3 has it.
\<close>

datatype cell = IntCell int | FloatCell rat | StrCell string | NaNCell

fun astype_str :: "(rat \<Rightarrow> string) \<Rightarrow> cell \<Rightarrow> string" where
  "astype_str float_str (IntCell i) = str_int i"
| "astype_str float_str (FloatCell x) = float_str x"
| "astype_str float_str (StrCell s) = s"
| "astype_str float_str NaNCell = ''nan''"

text \<open>
  A table is the list of its columns, each a name and its cells; what \<^verbatim>\<open>pd.read_csv\<close>
  does at a path is the table or the exception it raises.
\<close>

type_synonym table = "(string \<times> cell list) list"

type_synonym csv_files = "string \<Rightarrow> error + table"

text \<open>
  The list comprehension with its two steps before it: every cell as a string,
  zero-filled to 5, kept when it has 5 characters that are all digits.
\<close>

definition valid_zips :: "(rat \<Rightarrow> string) \<Rightarrow> cell list \<Rightarrow> string list" where
  "valid_zips float_str col =
     filter (\<lambda>z. length z = 5 \<and> isdigit z) (map (\<lambda>c. zfill 5 (astype_str float_str c)) col)"

text \<open>
  \<^verbatim>\<open>load_real_zip_codes\<close>. \<^verbatim>\<open>list(set(real_zips))\<close> removes the duplicates and leaves
  the order open; the model keeps one copy of each value.
\<close>

definition load_real_zip_codes ::
  "(rat \<Rightarrow> string) \<Rightarrow> csv_files \<Rightarrow> string \<Rightarrow> error + string list" where
  "load_real_zip_codes float_str files filepath =
     (case files filepath of
        Inr df_zip \<Rightarrow>
          (case map_of df_zip ''zip'' of
             Some col \<Rightarrow> Inr (remdups (valid_zips float_str col))
           | None \<Rightarrow>
               (case map_of df_zip ''ZIP'' of
                  Some col \<Rightarrow> Inr (remdups (valid_zips float_str col))
                | None \<Rightarrow> Inr []))
      | Inl FileNotFoundError \<Rightarrow> Inr []
      | Inl e \<Rightarrow> Inr [])"


section \<open>The order generator\<close>

text \<open>
  Dates are proleptic Gregorian ordinals (\<^verbatim>\<open>date.toordinal()\<close>), the times of day are
  all midnight: 2024-01-01 is 738886, 2024-12-31 is 739251 and \<^verbatim>\<open>datetime.max\<close> falls
  on 3652059. A decimal literal of the source such as \<^verbatim>\<open>0.70\<close> is the double nearest
  to it.
\<close>

definition NUM_ORDERS :: nat where "NUM_ORDERS = 100000"
definition START_DATE :: int where "START_DATE = 738886"
definition END_DATE :: int where "END_DATE = 739251"
definition MAX_DATE :: int where "MAX_DATE = 3652059"
definition PRIME_MEMBER_RATIO :: rat where "PRIME_MEMBER_RATIO = fl (70 / 100)"
definition PRIME_DELAY_PROBABILITY :: rat where "PRIME_DELAY_PROBABILITY = fl (5 / 100)"
definition STANDARD_DELAY_PROBABILITY :: rat where "STANDARD_DELAY_PROBABILITY = fl (20 / 100)"
definition AVERAGE_DELAY_DAYS :: int where "AVERAGE_DELAY_DAYS = 2"
definition BASE_AMZL_COST_PER_PACKAGE :: rat where "BASE_AMZL_COST_PER_PACKAGE = 5"
definition BASE_3PC_COST_PER_PACKAGE :: rat where "BASE_3PC_COST_PER_PACKAGE = 4"
definition PRIME_EXPEDITED_COST_PREMIUM :: rat where "PRIME_EXPEDITED_COST_PREMIUM = fl (12 / 10)"

definition PRIME_CARRIER_DIST :: "(string \<times> rat) list" where
  "PRIME_CARRIER_DIST =
     [(''AMZL'', fl (85 / 100)), (''UPS'', fl (7 / 100)), (''USPS'', fl (5 / 100)),
      (''FedEx'', fl (3 / 100))]"

definition STANDARD_CARRIER_DIST :: "(string \<times> rat) list" where
  "STANDARD_CARRIER_DIST =
     [(''AMZL'', fl (20 / 100)), (''UPS'', fl (40 / 100)), (''USPS'', fl (30 / 100)),
      (''FedEx'', fl (10 / 100))]"

text \<open>
  The random values one iteration of the row loop draws, in the order of the source.
  Each field is what the call returns: \<^verbatim>\<open>random.randint\<close> for the integers,
  \<^verbatim>\<open>random.random\<close> for the three trials, \<^verbatim>\<open>np.random.normal\<close> with the parameters of
  the row's membership tier, \<^verbatim>\<open>random.choice(REAL_ZIP_CODES)\<close> and
  \<^verbatim>\<open>fake.postcode()\<close> for the ZIP code. The jitter draw is the value of the
  \<^verbatim>\<open>random()\<close> call inside \<^verbatim>\<open>random.uniform(0.9, 1.1)\<close>, and the carrier draw the one
  inside \<^verbatim>\<open>random.choices\<close>.
\<close>

record row_draws =
  customer_draw :: int
  order_date_draw :: int
  prime_draw :: rat
  normal_draw :: rat
  delay_trial_draw :: rat
  delay_days_draw :: int
  carrier_draw :: rat
  jitter_draw :: rat
  product_draw :: int
  quantity_draw :: int
  zip_choice_draw :: string
  postcode_draw :: string

text \<open>
  \<^verbatim>\<open>d + timedelta(days=n)\<close>: an \<^verbatim>\<open>OverflowError\<close> when the result leaves the range of
  \<^verbatim>\<open>datetime\<close>.
\<close>

definition add_days :: "int \<Rightarrow> int \<Rightarrow> error + int" where
  "add_days d n = (if 1 \<le> d + n \<and> d + n \<le> MAX_DATE then Inr (d + n) else Inl OverflowError)"

definition get_random_date :: "int \<Rightarrow> int \<Rightarrow> int \<Rightarrow> error + int" where
  "get_random_date start end_date draw = add_days start draw"

text \<open>
  \<^verbatim>\<open>random.uniform(a, b)\<close>, which the library computes as
  \<^verbatim>\<open>a + (b - a) * self.random()\<close>, on the value of the \<^verbatim>\<open>random()\<close> call.
\<close>

definition uniform :: "rat \<Rightarrow> rat \<Rightarrow> rat \<Rightarrow> rat" where
  "uniform a b draw = fl (a + fl (fl (b - a) * draw))"

text \<open>
  \<^verbatim>\<open>random.choices(population, weights=weights, k=1)[0]\<close>: the cumulative weights
  (\<^verbatim>\<open>itertools.accumulate\<close>: the first weight, then the running sums) are searched
  (\<^verbatim>\<open>bisect\<close> up to the last index) for the draw scaled by their total.
\<close>

fun running_sums :: "rat \<Rightarrow> rat list \<Rightarrow> rat list" where
  "running_sums acc [] = []"
| "running_sums acc (w # ws) = fl (acc + w) # running_sums (fl (acc + w)) ws"

definition cum_weights :: "rat list \<Rightarrow> rat list" where
  "cum_weights weights = (case weights of [] \<Rightarrow> [] | w # ws \<Rightarrow> w # running_sums w ws)"

definition choices :: "(string \<times> rat) list \<Rightarrow> rat \<Rightarrow> string" where
  "choices distribution draw =
     (let cum = cum_weights (map snd distribution);
          total = last cum;
          idx = length (takeWhile (\<lambda>c. c \<le> fl (draw * total)) (butlast cum))
      in map fst distribution ! idx)"

definition get_carrier :: "bool \<Rightarrow> rat \<Rightarrow> string" where
  "get_carrier is_prime draw =
     (if is_prime then choices PRIME_CARRIER_DIST draw else choices STANDARD_CARRIER_DIST draw)"

text \<open>\<^verbatim>\<open>get_delivery_time\<close>, on the sample \<^verbatim>\<open>np.random.normal\<close> returned.\<close>

definition get_delivery_time :: "bool \<Rightarrow> rat \<Rightarrow> int" where
  "get_delivery_time is_prime sample =
     (if is_prime then max 1 (py_round sample) else max 1 (py_round sample))"

text \<open>The row appended to \<^verbatim>\<open>orders_data\<close>; the dates are kept as dates.\<close>

record order_row =
  order_id :: string
  customer_id :: string
  order_date :: int
  is_prime_member :: bool
  expected_delivery_date :: int
  actual_delivery_date :: int
  delivery_status :: string
  carrier :: string
  delivery_cost_to_amazon :: rat
  product_id :: string
  order_quantity :: int
  destination_zip_code :: string

text \<open>The three-way comparison that sets \<^verbatim>\<open>delivery_status\<close>.\<close>

definition status_of :: "int \<Rightarrow> int \<Rightarrow> string" where
  "status_of actual expected =
     (if actual < expected then ''Early''
      else if actual = expected then ''On-Time''
      else ''Late'')"

text \<open>
  The cost before the final \<^verbatim>\<open>round(..., 2)\<close>, on the value \<open>jitter\<close> of
  \<^verbatim>\<open>random.uniform(0.9, 1.1)\<close>: two multiplications of doubles.
\<close>

definition cost_before_rounding :: "string \<Rightarrow> bool \<Rightarrow> rat \<Rightarrow> rat" where
  "cost_before_rounding carr is_prime jitter =
     (let base_cost = (if carr = ''AMZL'' then BASE_AMZL_COST_PER_PACKAGE
                       else BASE_3PC_COST_PER_PACKAGE);
          cost = (if is_prime then fl (base_cost * PRIME_EXPEDITED_COST_PREMIUM) else base_cost)
      in fl (cost * jitter))"

text \<open>The jitter of a row: \<^verbatim>\<open>random.uniform(0.9, 1.1)\<close> on the draw of the row.\<close>

definition jitter_of :: "row_draws \<Rightarrow> rat" where
  "jitter_of d = uniform (fl (9 / 10)) (fl (11 / 10)) (jitter_draw d)"

text \<open>
  The delay test: \<^verbatim>\<open>and\<close> and \<^verbatim>\<open>or\<close> evaluate one \<^verbatim>\<open>random.random()\<close> whatever the
  tier, compared with the probability of the tier.
\<close>

definition delayed :: "bool \<Rightarrow> rat \<Rightarrow> bool" where
  "delayed is_prime trial =
     ((is_prime \<and> trial < PRIME_DELAY_PROBABILITY) \<or>
      (\<not> is_prime \<and> trial < STANDARD_DELAY_PROBABILITY))"

text \<open>
  One iteration of the row loop: \<open>zips\<close> is \<^verbatim>\<open>REAL_ZIP_CODES\<close>, \<open>i\<close> the loop index and
  \<open>d\<close> the values drawn.
\<close>

definition gen_row :: "string list \<Rightarrow> nat \<Rightarrow> row_draws \<Rightarrow> error + order_row" where
  "gen_row zips i d =
     (let oid = ''ORD-'' @ format_0d 7 (int i);
          cid = ''CUST-'' @ format_0d 5 (customer_draw d)
      in ebind (get_random_date START_DATE END_DATE (order_date_draw d)) (\<lambda>odate.
         let is_prime = (prime_draw d < PRIME_MEMBER_RATIO);
             delivery_days = get_delivery_time is_prime (normal_draw d)
         in ebind (add_days odate delivery_days) (\<lambda>expected.
            ebind (if delayed is_prime (delay_trial_draw d)
                   then add_days expected (delay_days_draw d) else Inr expected) (\<lambda>actual.
            let carr = get_carrier is_prime (carrier_draw d);
                use_faker_postcode = (zips = [])
            in Inr \<lparr> order_id = oid,
                     customer_id = cid,
                     order_date = odate,
                     is_prime_member = is_prime,
                     expected_delivery_date = expected,
                     actual_delivery_date = actual,
                     delivery_status = status_of actual expected,
                     carrier = carr,
                     delivery_cost_to_amazon =
                       py_round2 (cost_before_rounding carr is_prime (jitter_of d)),
                     product_id = ''PROD-'' @ format_0d 3 (product_draw d),
                     order_quantity = quantity_draw d,
                     destination_zip_code =
                       (if \<not> use_faker_postcode then zip_choice_draw d else postcode_draw d) \<rparr>))))"

text \<open>
  The loop \<^verbatim>\<open>for i in range(n)\<close> on the list \<^verbatim>\<open>orders_data\<close>, with the values drawn in
  iteration \<open>i\<close> given by \<open>draws i\<close>; the script runs it for \<open>NUM_ORDERS\<close> rows.
\<close>

fun orders_loop ::
  "string list \<Rightarrow> (nat \<Rightarrow> row_draws) \<Rightarrow> nat list \<Rightarrow> order_row list \<Rightarrow> error + order_row list" where
  "orders_loop zips draws [] orders_data = Inr orders_data"
| "orders_loop zips draws (i # rest) orders_data =
     ebind (gen_row zips i (draws i)) (\<lambda>row. orders_loop zips draws rest (orders_data @ [row]))"

definition generate_rows :: "nat \<Rightarrow> string list \<Rightarrow> (nat \<Rightarrow> row_draws) \<Rightarrow> error + order_row list" where
  "generate_rows n zips draws = orders_loop zips draws [0..<n] []"

definition generate_orders :: "string list \<Rightarrow> (nat \<Rightarrow> row_draws) \<Rightarrow> error + order_row list" where
  "generate_orders zips draws = generate_rows NUM_ORDERS zips draws"


section \<open>Reference quantities\<close>

text \<open>
  The quantities the properties below are stated with. They are not part of the
  scripts: each one spells out a phrase of the specification.
\<close>

text \<open>The number a field holds, 0 for a value that is not a number.\<close>

definition num_val :: "json \<Rightarrow> rat" where
  "num_val v = (case to_num v of Inr x \<Rightarrow> x | Inl e \<Rightarrow> 0)"

text \<open>
  The seconds one stop entry contributes: travel time to the next stop plus planned
  service time, each 0 when absent; nothing for an entry that is not a mapping.
\<close>

definition stop_seconds :: "json \<Rightarrow> rat" where
  "stop_seconds stop_detail =
     (case stop_detail of
        JObj sd \<Rightarrow>
          num_val (dict_get_default sd ''travel_time_to_next_stop_in_seconds'' (JInt 0))
          + num_val (dict_get_default sd ''planned_service_time_seconds'' (JInt 0))
      | _ \<Rightarrow> 0)"

text \<open>
  The volume one package contributes: depth times height times width, each 0 when
  absent, for a package with a \<open>dimensions\<close> mapping; nothing for any other package.
\<close>

definition package_volume :: "json \<Rightarrow> rat" where
  "package_volume pkg =
     (case pkg of
        JObj p \<Rightarrow>
          (case map_of p ''dimensions'' of
             Some (JObj dm) \<Rightarrow>
               num_val (dict_get_default dm ''depth_cm'' (JInt 0))
               * num_val (dict_get_default dm ''height_cm'' (JInt 0))
               * num_val (dict_get_default dm ''width_cm'' (JInt 0))
           | _ \<Rightarrow> 0)
      | _ \<Rightarrow> 0)"

text \<open>
  What a source location holds for a route identifier: the entry of the document
  when the document is a mapping that has one, \<^verbatim>\<open>None\<close> otherwise.
\<close>

definition doc_lookup :: "json \<Rightarrow> string \<Rightarrow> json" where
  "doc_lookup doc rid = (case doc of JObj d \<Rightarrow> dict_get d rid | _ \<Rightarrow> JNull)"

text \<open>
  The first record found in a list of candidates. A record counts as found when it is
  true in Python's sense, which is how the \<^verbatim>\<open>DEBUG\<close> prints of the main block report
  it (\<^verbatim>\<open>route_details found: {bool(route_details)}\<close>).
\<close>

definition first_found :: "json list \<Rightarrow> json option" where
  "first_found candidates = List.find truthy candidates"

text \<open>
  The record that first-found-wins precedence selects for a route identifier among
  three source locations, taken in the order given: the first record found, and, when
  none is found, what the last location holds (a record that is not found).
\<close>

definition precedence_record :: "json \<Rightarrow> json \<Rightarrow> json \<Rightarrow> string \<Rightarrow> json" where
  "precedence_record build apply eval rid =
     (case first_found [doc_lookup build rid, doc_lookup apply rid, doc_lookup eval rid] of
        Some v \<Rightarrow> v
      | None \<Rightarrow> doc_lookup eval rid)"

text \<open>
  Both the route details and the package details of a route identifier are found:
  each resolves to a record that is present and not empty.
\<close>

definition both_found :: "sources \<Rightarrow> string \<Rightarrow> bool" where
  "both_found src rid =
     (case resolved_route src rid of
        Inr rd \<Rightarrow>
          (case resolved_packages src rid of
             Inr pd \<Rightarrow> truthy rd \<and> truthy pd
           | Inl e \<Rightarrow> False)
      | Inl e \<Rightarrow> False)"

text \<open>The number a string of decimal digits denotes.\<close>

definition decimal_value :: "string \<Rightarrow> nat" where
  "decimal_value s = foldl (\<lambda>acc c. 10 * acc + (of_char c - 48)) 0 s"

text \<open>
  Draws with which one iteration of the row loop returns: the offset of the order date
  as \<^verbatim>\<open>random.randint(0, (END_DATE - START_DATE).days)\<close> gives it, the delay as
  \<^verbatim>\<open>random.randint(1, AVERAGE_DELAY_DAYS)\<close> gives it, and a normal sample that keeps
  the dates in the range of \<^verbatim>\<open>datetime\<close>.
\<close>

definition draws_in_range :: "row_draws \<Rightarrow> bool" where
  "draws_in_range d =
     (0 \<le> order_date_draw d \<and> order_date_draw d \<le> END_DATE - START_DATE
      \<and> normal_draw d \<le> 1000000
      \<and> 1 \<le> delay_days_draw d \<and> delay_days_draw d \<le> AVERAGE_DELAY_DAYS)"

text \<open>Inputs for the examples of the specification.\<close>

definition example_route :: json where
  "example_route =
     JObj [(''stops'',
            JObj [(''s1'', JObj [(''travel_time_to_next_stop_in_seconds'', JInt 3600),
                                 (''planned_service_time_seconds'', JInt 1800)])])]"

definition example_packages :: json where
  "example_packages =
     JObj [(''AD'',
            JObj [(''p1'', JObj [(''dimensions'',
                     JObj [(''depth_cm'', JInt 2), (''height_cm'', JInt 3), (''width_cm'', JInt 4)])]),
                  (''p2'', JObj [(''dimensions'',
                     JObj [(''depth_cm'', JInt 1), (''height_cm'', JInt 1), (''width_cm'', JInt 1)])])])]"

definition example_sources :: sources where
  "example_sources =
     \<lparr> route_data_build = JObj [(''R1'', example_route), (''R2'', example_route)],
       package_data_build = JObj [],
       actual_sequences_build = JObj [],
       route_data_apply = JObj [],
       package_data_apply = JObj [(''R1'', example_packages)],
       actual_sequences_apply = JObj [],
       route_data_eval = JObj [],
       package_data_eval = JObj [],
       actual_sequences_eval = JObj [] \<rparr>"

definition example_sequence :: json where
  "example_sequence = JObj [(''actual'', JObj [(''s1'', JInt 0), (''s2'', JInt 1)])]"

definition example_other_route :: json where
  "example_other_route = JObj [(''city'', JStr ''Elsewhere'')]"

definition example_sources_eval :: sources where
  "example_sources_eval =
     \<lparr> route_data_build = JObj [(''R1'', example_route), (''R4'', JObj [])],
       package_data_build = JObj [(''R3'', example_packages), (''R4'', example_packages)],
       actual_sequences_build = JObj [],
       route_data_apply = JObj [(''R4'', example_other_route)],
       package_data_apply = JObj [(''R1'', example_packages)],
       actual_sequences_apply = JObj [(''R4'', example_sequence)],
       route_data_eval = JObj [(''R1'', example_other_route), (''R3'', example_route),
                               (''R4'', example_route)],
       package_data_eval = JObj [(''R1'', JObj [(''packages'', JObj [])])],
       actual_sequences_eval = JObj [(''R1'', example_sequence), (''R4'', JObj [(''x'', JNull)])] \<rparr>"

definition example_files :: filesystem where
  "example_files path =
     (if path = ''a.json'' then \<lparr> path_exists = True, open_and_load = Inr example_route \<rparr>
      else if path = ''b.json'' then \<lparr> path_exists = True, open_and_load = Inl JSONDecodeError \<rparr>
      else \<lparr> path_exists = False, open_and_load = Inl FileNotFoundError \<rparr>)"

definition superscript_csv :: csv_files where
  "superscript_csv path =
     (if path = ''data/us_zip_codes.csv''
      then Inr [(''zip'', [StrCell (''1234'' @ [CHR 0xB2]), StrCell ''90210''])]
      else Inl FileNotFoundError)"

definition example_draws :: row_draws where
  "example_draws =
     \<lparr> customer_draw = 12345, order_date_draw = 9, prime_draw = 1 / 2, normal_draw = 3 / 2,
       delay_trial_draw = 1 / 100, delay_days_draw = 2, carrier_draw = 0,
       jitter_draw = 1 / 2, product_draw = 321, quantity_draw = 3,
       zip_choice_draw = ''90210'', postcode_draw = ''10001'' \<rparr>"

text \<open>
  The largest value \<^verbatim>\<open>random.random()\<close> returns is \<open>1 - 2 ^ -53\<close>; with it as the
  jitter draw \<^verbatim>\<open>random.uniform(0.9, 1.1)\<close> returns the double 1.1.
\<close>

definition overshoot_draws :: row_draws where
  "overshoot_draws = example_draws\<lparr>jitter_draw := 1 - 1 / 2 ^ 53\<rparr>"


section \<open>Properties of the JSON loader\<close>

lemma ebind_Inr_iff: "ebind m f = Inr y \<longleftrightarrow> (\<exists>x. m = Inr x \<and> f x = Inr y)"
  by (cases m) (simp_all add: ebind_def)

lemma ebind_Inr: "m = Inr x \<Longrightarrow> ebind m f = f x"
  by (simp add: ebind_def)

lemma not_isl_Inr: "\<not> isl m \<Longrightarrow> \<exists>x. m = Inr x"
  by (cases m) simp_all

text \<open>
  C8. For every file path \<^verbatim>\<open>load_json_file\<close> returns and never raises: it returns the
  parsed content when the file exists and parses to content that is not empty, and
  the empty mapping when the file does not exist, when opening or parsing it raises
  (a decode error, as for an empty file, or any other exception), and when the
  parsed content is empty.
\<close>

theorem load_json_file_never_raises:
  "(\<exists>v. load_json_file fs filepath = Inr v)
   \<and> (\<forall>content. path_exists (fs filepath) \<and> open_and_load (fs filepath) = Inr content
          \<and> truthy content \<longrightarrow> load_json_file fs filepath = Inr content)
   \<and> (\<not> path_exists (fs filepath) \<longrightarrow> load_json_file fs filepath = Inr (JObj []))
   \<and> (\<forall>e. open_and_load (fs filepath) = Inl e \<longrightarrow> load_json_file fs filepath = Inr (JObj []))
   \<and> (\<forall>content. open_and_load (fs filepath) = Inr content \<and> \<not> truthy content
          \<longrightarrow> load_json_file fs filepath = Inr (JObj []))"
proof -
  have missing: "\<not> path_exists (fs filepath) \<Longrightarrow> load_json_file fs filepath = Inr (JObj [])"
    by (simp add: load_json_file_def)
  have raised: "load_json_file fs filepath = Inr (JObj [])"
    if "open_and_load (fs filepath) = Inl e" for e
    using that by (cases e) (simp_all add: load_json_file_def)
  have empty: "load_json_file fs filepath = Inr (JObj [])"
    if "open_and_load (fs filepath) = Inr content" "\<not> truthy content" for content
    using that by (simp add: load_json_file_def)
  have parsed: "load_json_file fs filepath = Inr content"
    if "path_exists (fs filepath)" "open_and_load (fs filepath) = Inr content" "truthy content"
    for content
    using that by (simp add: load_json_file_def)
  have "\<exists>v. load_json_file fs filepath = Inr v"
  proof (cases "open_and_load (fs filepath)")
    case (Inl e)
    then show ?thesis using raised by blast
  next
    case (Inr content)
    then show ?thesis using empty parsed missing by (cases "truthy content") blast+
  qed
  with missing raised empty parsed show ?thesis by blast
qed

theorem load_json_file_never_raises_witness:
  "load_json_file example_files ''a.json'' = Inr example_route
   \<and> load_json_file example_files ''b.json'' = Inr (JObj [])
   \<and> load_json_file example_files ''c.json'' = Inr (JObj [])"
proof -
  have a: "path_exists (example_files ''a.json'')
           \<and> open_and_load (example_files ''a.json'') = Inr example_route \<and> truthy example_route"
    by (simp add: example_files_def example_route_def)
  have b: "open_and_load (example_files ''b.json'') = Inl JSONDecodeError"
    by (simp add: example_files_def)
  have c: "\<not> path_exists (example_files ''c.json'')"
    by (simp add: example_files_def)
  from a b c
    load_json_file_never_raises [of example_files "''a.json''"]
    load_json_file_never_raises [of example_files "''b.json''"]
    load_json_file_never_raises [of example_files "''c.json''"]
  show ?thesis by blast
qed


section \<open>Properties of one route\<close>

lemma py_add_Inr: "py_add acc v = Inr y \<Longrightarrow> y = acc + num_val v"
  by (auto simp: py_add_def ebind_Inr_iff num_val_def)

lemma py_mul3_Inr: "py_mul3 a b c = Inr y \<Longrightarrow> y = num_val a * num_val b * num_val c"
  by (auto simp: py_mul3_def ebind_Inr_iff num_val_def)

text \<open>The two accumulators of the loop over the stops add up the seconds of the stops.\<close>

lemma stops_loop_sum:
  "stops_loop sd (travel, service) = Inr (travel', service') \<Longrightarrow>
   travel' + service' = travel + service + (\<Sum>e\<leftarrow>sd. stop_seconds (snd e))"
proof (induction sd arbitrary: travel service)
  case Nil
  then show ?case by simp
next
  case (Cons e sd)
  obtain stop_id stop_detail where e: "e = (stop_id, stop_detail)" by (cases e)
  show ?case
  proof (cases stop_detail)
    case (JObj d)
    with Cons.prems e obtain t1 s1 where
      t1: "py_add travel (dict_get_default d ''travel_time_to_next_stop_in_seconds'' (JInt 0)) = Inr t1" and
      s1: "py_add service (dict_get_default d ''planned_service_time_seconds'' (JInt 0)) = Inr s1" and
      rest: "stops_loop sd (t1, s1) = Inr (travel', service')"
      by (auto simp: ebind_Inr_iff)
    from Cons.IH [OF rest] py_add_Inr [OF t1] py_add_Inr [OF s1] e JObj
    show ?thesis by (simp add: stop_seconds_def)
  qed (use Cons e in \<open>auto simp: stop_seconds_def\<close>)
qed

lemma stops_duration_Inr:
  assumes "stops_duration (JObj sd) = Inr h"
  shows "h = max 0 ((\<Sum>e\<leftarrow>sd. stop_seconds (snd e)) / 3600)"
proof (cases "sd = []")
  case True
  with assms show ?thesis by (simp add: stops_duration_def)
next
  case False
  with assms obtain t s where l: "stops_loop sd (0, 0) = Inr (t, s)"
    and h: "h = (if (t + s) / 3600 < 0 then 0 else (t + s) / 3600)"
    by (auto simp: stops_duration_def ebind_Inr_iff Let_def)
  from stops_loop_sum [OF l] h show ?thesis by (simp add: max_def)
qed

lemma stops_duration_other: "\<not> is_dict v \<Longrightarrow> stops_duration v = Inr 0"
  by (cases v) (simp_all add: stops_duration_def)

text \<open>The loop over the stops returns when every time field that is present is a number.\<close>

lemma stops_loop_total:
  assumes "\<forall>e\<in>set sd. \<forall>d. snd e = JObj d \<longrightarrow>
             (\<forall>k v. map_of d k = Some v \<longrightarrow> \<not> isl (to_num v))"
  shows "\<exists>acc'. stops_loop sd acc = Inr acc'"
  using assms
proof (induction sd arbitrary: acc)
  case Nil
  then show ?case by simp
next
  case (Cons e sd)
  obtain stop_id stop_detail where e: "e = (stop_id, stop_detail)" by (cases e)
  obtain travel service where acc: "acc = (travel, service)" by (cases acc)
  have rest: "\<exists>acc'. stops_loop sd a = Inr acc'" for a
    using Cons.IH Cons.prems by simp
  show ?case
  proof (cases stop_detail)
    case (JObj d)
    have num: "\<exists>x. to_num (dict_get_default d k (JInt 0)) = Inr x" for k
    proof (cases "map_of d k")
      case None
      then show ?thesis by (simp add: dict_get_default_def)
    next
      case (Some v)
      with Cons.prems e JObj have "\<not> isl (to_num v)" by auto
      with Some show ?thesis by (simp add: dict_get_default_def not_isl_Inr)
    qed
    from num [of "''travel_time_to_next_stop_in_seconds''"]
         num [of "''planned_service_time_seconds''"] rest e acc JObj
    show ?thesis by (auto simp: py_add_def ebind_def)
  qed (use rest e acc in \<open>auto\<close>)
qed

lemma psrd_duration:
  assumes "process_single_route_data rid route_details package_details sq = Inr r"
  shows "if truthy route_details
         then \<exists>rd. route_details = JObj rd \<and>
                stops_duration (dict_get_default rd ''stops'' (JObj [])) = Inr (actual_route_duration_hours r)
         else actual_route_duration_hours r = 0"
  using assms
  by (cases route_details; cases package_details)
     (auto simp: process_single_route_data_def ebind_Inr_iff split: if_splits)

lemma psrd_route_id:
  assumes "process_single_route_data rid route_details package_details sq = Inr r"
  shows "route_id r = rid"
  using assms
  by (cases route_details; cases package_details)
     (auto simp: process_single_route_data_def ebind_Inr_iff split: if_splits)

text \<open>
  C2. Whenever \<^verbatim>\<open>process_single_route_data\<close> returns, the duration in hours is: for
  route details whose \<open>stops\<close> value is present and is a mapping, the sum over the stop
  entries that are mappings of travel time to the next stop plus planned service time
  (each 0 when absent), divided by 3600 and floored at zero; and 0 when \<open>stops\<close> is
  absent, empty or not a mapping.
\<close>

theorem route_duration_from_stops:
  assumes "process_single_route_data rid route_details package_details sq = Inr r"
  shows "actual_route_duration_hours r =
           (case route_details of
              JObj rd \<Rightarrow>
                (case map_of rd ''stops'' of
                   Some (JObj stops) \<Rightarrow> max 0 ((\<Sum>e\<leftarrow>stops. stop_seconds (snd e)) / 3600)
                 | _ \<Rightarrow> 0)
            | _ \<Rightarrow> 0)"
proof (cases "truthy route_details")
  case False
  with psrd_duration [OF assms] have "actual_route_duration_hours r = 0" by simp
  moreover from False have "route_details = JObj [] \<or> \<not> is_dict route_details"
    by (cases route_details) auto
  ultimately show ?thesis by (cases route_details) auto
next
  case True
  with psrd_duration [OF assms] obtain rd where rd: "route_details = JObj rd"
    and d: "stops_duration (dict_get_default rd ''stops'' (JObj [])) = Inr (actual_route_duration_hours r)"
    by auto
  show ?thesis
  proof (cases "map_of rd ''stops''")
    case None
    with d rd show ?thesis by (simp add: dict_get_default_def stops_duration_def)
  next
    case (Some v)
    show ?thesis
    proof (cases "is_dict v")
      case True
      then obtain stops where "v = JObj stops" by (cases v) auto
      with Some d rd stops_duration_Inr [of stops "actual_route_duration_hours r"]
      show ?thesis by (simp add: dict_get_default_def)
    next
      case False
      with Some d rd stops_duration_other [of v] show ?thesis
        by (cases v) (auto simp: dict_get_default_def)
    qed
  qed
qed

theorem route_duration_from_stops_witness:
  "\<exists>r. process_single_route_data ''R1'' example_route JNull JNull = Inr r
       \<and> actual_route_duration_hours r = 3 / 2"
proof -
  have "\<not> isl (process_single_route_data ''R1'' example_route JNull JNull)"
    by code_simp
  then obtain r where r: "process_single_route_data ''R1'' example_route JNull JNull = Inr r"
    using not_isl_Inr by blast
  have "actual_route_duration_hours r = 3 / 2"
    using route_duration_from_stops [OF r]
    by (simp add: example_route_def stop_seconds_def num_val_def dict_get_default_def)
  with r show ?thesis by blast
qed

text \<open>The loop over the packages adds up the volumes of the packages.\<close>

lemma packages_loop_sum:
  "packages_loop ps vol = Inr v \<Longrightarrow> v = vol + (\<Sum>p\<leftarrow>ps. package_volume p)"
proof (induction ps arbitrary: vol)
  case Nil
  then show ?case by simp
next
  case (Cons pkg ps)
  from Cons.prems obtain present where
    present: "py_in ''dimensions'' pkg = Inr present" and
    body: "(if present then
              ebind (get_method pkg ''dimensions'') (\<lambda>dims.
                case dims of
                  JObj dm \<Rightarrow>
                    ebind (py_mul3 (dict_get_default dm ''depth_cm'' (JInt 0))
                                   (dict_get_default dm ''height_cm'' (JInt 0))
                                   (dict_get_default dm ''width_cm'' (JInt 0)))
                      (\<lambda>v. packages_loop ps (vol + v))
                | _ \<Rightarrow> packages_loop ps vol)
            else packages_loop ps vol) = Inr v"
    by (auto simp: ebind_Inr_iff)
  show ?case
  proof (cases present)
    case False
    with body have rest: "packages_loop ps vol = Inr v" by simp
    from present False have "package_volume pkg = 0"
      by (cases pkg) (auto simp: package_volume_def has_key_def)
    with Cons.IH [OF rest] show ?thesis by simp
  next
    case True
    with body obtain dims where
      dims: "get_method pkg ''dimensions'' = Inr dims" and
      after: "(case dims of
                 JObj dm \<Rightarrow>
                   ebind (py_mul3 (dict_get_default dm ''depth_cm'' (JInt 0))
                                  (dict_get_default dm ''height_cm'' (JInt 0))
                                  (dict_get_default dm ''width_cm'' (JInt 0)))
                     (\<lambda>v. packages_loop ps (vol + v))
               | _ \<Rightarrow> packages_loop ps vol) = Inr v"
      by (auto simp: ebind_Inr_iff)
    from dims obtain p where p: "pkg = JObj p" "dims = dict_get p ''dimensions''"
      by (cases pkg) auto
    from present True p have key: "map_of p ''dimensions'' \<noteq> None"
      by (simp add: has_key_def)
    then obtain w where w: "map_of p ''dimensions'' = Some w" by auto
    with p have dw: "dims = w" by (simp add: dict_get_def dict_get_default_def)
    show ?thesis
    proof (cases "is_dict w")
      case False
      with after dw have rest: "packages_loop ps vol = Inr v" by (cases w) auto
      from False w p have "package_volume pkg = 0"
        by (cases w) (auto simp: package_volume_def)
      with Cons.IH [OF rest] show ?thesis by simp
    next
      case True
      then obtain dm where dm: "w = JObj dm" by (cases w) auto
      with after dw obtain x where
        x: "py_mul3 (dict_get_default dm ''depth_cm'' (JInt 0))
                    (dict_get_default dm ''height_cm'' (JInt 0))
                    (dict_get_default dm ''width_cm'' (JInt 0)) = Inr x" and
        rest: "packages_loop ps (vol + x) = Inr v"
        by (auto simp: ebind_Inr_iff)
      from py_mul3_Inr [OF x] w p dm have "package_volume pkg = x"
        by (simp add: package_volume_def)
      with Cons.IH [OF rest] show ?thesis by simp
    qed
  qed
qed

lemma psrd_packages:
  assumes "process_single_route_data rid route_details package_details sq = Inr r"
    and "truthy package_details"
  shows "\<exists>pd vals. package_details = JObj pd \<and> values_method (inner_packages_dict pd) = Inr vals
           \<and> num_deliveries r = length vals
           \<and> packages_loop vals 0 = Inr (total_calculated_volume_cm3 r)"
  using assms
  by (cases package_details)
     (auto simp: process_single_route_data_def ebind_Inr_iff split: if_splits)

text \<open>
  C3. Whenever \<^verbatim>\<open>process_single_route_data\<close> returns on package details that are not
  empty, the package details are a mapping and the inner package mapping is located
  under \<open>AD\<close> when that entry is not empty, and otherwise under \<open>packages\<close> when that entry
  is a mapping; the delivery count is the number of entries of the inner mapping, and
  the total volume is the sum, over the packages that have a \<open>dimensions\<close> mapping, of
  depth times height times width, each 0 when absent.
\<close>

theorem package_count_and_volume:
  assumes "process_single_route_data rid route_details package_details sq = Inr r"
    and "truthy package_details"
  shows "\<exists>pd inner. package_details = JObj pd \<and> inner_packages_dict pd = JObj inner
           \<and> (\<forall>v. map_of pd ''AD'' = Some v \<and> truthy v \<longrightarrow> JObj inner = v)
           \<and> (\<forall>q. (\<forall>v. map_of pd ''AD'' = Some v \<longrightarrow> \<not> truthy v)
                   \<and> map_of pd ''packages'' = Some (JObj q) \<longrightarrow> inner = q)
           \<and> num_deliveries r = length inner
           \<and> total_calculated_volume_cm3 r = (\<Sum>p\<leftarrow>map snd inner. package_volume p)"
proof -
  from psrd_packages [OF assms] obtain pd vals where
    pd: "package_details = JObj pd" and
    vals: "values_method (inner_packages_dict pd) = Inr vals" and
    n: "num_deliveries r = length vals" and
    loop: "packages_loop vals 0 = Inr (total_calculated_volume_cm3 r)"
    by blast
  from vals obtain inner where inner: "inner_packages_dict pd = JObj inner" "vals = map snd inner"
    by (cases "inner_packages_dict pd") auto
  have ad: "JObj inner = v" if "map_of pd ''AD'' = Some v \<and> truthy v" for v
    using that inner(1) by (simp add: inner_packages_dict_def dict_get_default_def)
  have pk: "inner = q"
    if "(\<forall>v. map_of pd ''AD'' = Some v \<longrightarrow> \<not> truthy v) \<and> map_of pd ''packages'' = Some (JObj q)" for q
    using that inner(1)
    by (cases "map_of pd ''AD''")
       (auto simp: inner_packages_dict_def dict_get_default_def dict_get_def has_key_def)
  from packages_loop_sum [OF loop] inner(2)
  have "total_calculated_volume_cm3 r = (\<Sum>p\<leftarrow>map snd inner. package_volume p)" by simp
  with pd inner n ad pk show ?thesis by auto
qed

theorem package_count_and_volume_witness:
  "\<exists>r. process_single_route_data ''R1'' example_route example_packages JNull = Inr r
       \<and> num_deliveries r = 2 \<and> total_calculated_volume_cm3 r = 25"
proof -
  have "\<not> isl (process_single_route_data ''R1'' example_route example_packages JNull)"
    by code_simp
  then obtain r where r: "process_single_route_data ''R1'' example_route example_packages JNull = Inr r"
    using not_isl_Inr by blast
  have t: "truthy example_packages" by (simp add: example_packages_def)
  from package_count_and_volume [OF r t] obtain pd inner where
    pd: "example_packages = JObj pd" and
    ad: "\<forall>v. map_of pd ''AD'' = Some v \<and> truthy v \<longrightarrow> JObj inner = v" and
    n: "num_deliveries r = length inner" and
    v: "total_calculated_volume_cm3 r = (\<Sum>p\<leftarrow>map snd inner. package_volume p)"
    by blast
  from pd have pd': "pd = [(''AD'',
            JObj [(''p1'', JObj [(''dimensions'',
                     JObj [(''depth_cm'', JInt 2), (''height_cm'', JInt 3), (''width_cm'', JInt 4)])]),
                  (''p2'', JObj [(''dimensions'',
                     JObj [(''depth_cm'', JInt 1), (''height_cm'', JInt 1), (''width_cm'', JInt 1)])])])]"
    by (simp add: example_packages_def)
  with ad have inner: "inner = [(''p1'', JObj [(''dimensions'',
                     JObj [(''depth_cm'', JInt 2), (''height_cm'', JInt 3), (''width_cm'', JInt 4)])]),
                  (''p2'', JObj [(''dimensions'',
                     JObj [(''depth_cm'', JInt 1), (''height_cm'', JInt 1), (''width_cm'', JInt 1)])])]"
    by simp
  from n v have "num_deliveries r = 2 \<and> total_calculated_volume_cm3 r = 25"
    unfolding inner by (simp add: package_volume_def num_val_def dict_get_default_def)
  with r show ?thesis by blast
qed


section \<open>Properties of the loop over the routes\<close>

text \<open>What one iteration does to the list of processed routes, when it returns.\<close>

lemma route_step_Inr:
  assumes "route_step src rid acc = Inr rows"
  shows "\<exists>rd pd sq. resolved_route src rid = Inr rd \<and> resolved_packages src rid = Inr pd
           \<and> resolved_sequences src rid = Inr sq
           \<and> (if truthy rd \<and> truthy pd
               then \<exists>m. process_single_route_data rid rd pd sq = Inr m \<and> rows = acc @ [m]
               else rows = acc)"
  using assms by (auto simp: route_step_def ebind_Inr_iff split: if_splits)

lemma route_step_ids:
  assumes "route_step src rid acc = Inr rows"
  shows "map route_id rows = map route_id acc @ filter (both_found src) [rid]"
proof -
  from route_step_Inr [OF assms] obtain rd pd sq where
    r: "resolved_route src rid = Inr rd" "resolved_packages src rid = Inr pd" and
    c: "if truthy rd \<and> truthy pd
        then \<exists>m. process_single_route_data rid rd pd sq = Inr m \<and> rows = acc @ [m]
        else rows = acc"
    by blast
  show ?thesis
  proof (cases "truthy rd \<and> truthy pd")
    case True
    with c obtain m where m: "process_single_route_data rid rd pd sq = Inr m" "rows = acc @ [m]"
      by auto
    from True r have "both_found src rid" by (simp add: both_found_def)
    with m psrd_route_id [OF m(1)] show ?thesis by simp
  next
    case False
    with r have "\<not> both_found src rid" by (simp add: both_found_def)
    with c False show ?thesis by simp
  qed
qed

text \<open>
  The identifiers of the processed routes, in order: those already there, then the
  identifiers of the loop for which both records are found.
\<close>

lemma routes_loop_ids:
  "routes_loop src ids acc = Inr rows \<Longrightarrow>
   map route_id rows = map route_id acc @ filter (both_found src) ids"
proof (induction ids arbitrary: acc)
  case Nil
  then show ?case by simp
next
  case (Cons rid ids)
  from Cons.prems obtain mid where
    step: "route_step src rid acc = Inr mid" and rest: "routes_loop src ids mid = Inr rows"
    by (auto simp: ebind_Inr_iff)
  from Cons.IH [OF rest] route_step_ids [OF step] show ?case by simp
qed

text \<open>Every processed route comes from an iteration that resolved its three records.\<close>

lemma routes_loop_member:
  "routes_loop src ids acc = Inr rows \<Longrightarrow> r \<in> set rows \<Longrightarrow>
   r \<in> set acc \<or>
   (\<exists>rid rd pd sq. resolved_route src rid = Inr rd \<and> resolved_packages src rid = Inr pd
      \<and> resolved_sequences src rid = Inr sq \<and> truthy rd \<and> truthy pd
      \<and> process_single_route_data rid rd pd sq = Inr r)"
proof (induction ids arbitrary: acc)
  case Nil
  then show ?case by simp
next
  case (Cons rid ids)
  from Cons.prems(1) obtain mid where
    step: "route_step src rid acc = Inr mid" and rest: "routes_loop src ids mid = Inr rows"
    by (auto simp: ebind_Inr_iff)
  from Cons.IH [OF rest Cons.prems(2)] show ?case
  proof
    assume "r \<in> set mid"
    with route_step_Inr [OF step] show ?thesis
      by (auto split: if_splits)
  next
    assume "\<exists>rid rd pd sq. resolved_route src rid = Inr rd \<and> resolved_packages src rid = Inr pd
      \<and> resolved_sequences src rid = Inr sq \<and> truthy rd \<and> truthy pd
      \<and> process_single_route_data rid rd pd sq = Inr r"
    then show ?thesis by blast
  qed
qed

lemma aggregate_routes_loop:
  assumes "aggregate_routes src = Inr rows"
  shows "\<exists>ids. all_route_ids_to_process src = Inr ids \<and> routes_loop src ids [] = Inr rows"
proof -
  from assms obtain ids where ids: "all_route_ids_to_process src = Inr ids"
    and body: "(if ids = [] then Inr [] else routes_loop src ids []) = Inr rows"
    by (auto simp: aggregate_routes_def ebind_Inr_iff)
  from body have "routes_loop src ids [] = Inr rows" by (cases "ids = []") auto
  with ids show ?thesis by blast
qed

text \<open>
  C1. Whenever the aggregation returns, a route identifier it considers has a record
  in the output if and only if its route details and its package details both resolve
  to a record that is present and not empty. The sequence details play no part in the
  condition, and an identifier whose package details resolve to nothing is left out.
\<close>

theorem route_emitted_iff_both_found:
  assumes "aggregate_routes src = Inr rows"
    and "all_route_ids_to_process src = Inr ids"
    and "rid \<in> set ids"
  shows "(rid \<in> route_id ` set rows \<longleftrightarrow>
            (\<exists>rd pd. resolved_route src rid = Inr rd \<and> resolved_packages src rid = Inr pd
               \<and> truthy rd \<and> truthy pd))
         \<and> (\<forall>pd. resolved_packages src rid = Inr pd \<and> \<not> truthy pd
               \<longrightarrow> rid \<notin> route_id ` set rows)"
proof -
  from aggregate_routes_loop [OF assms(1)] assms(2)
  have loop: "routes_loop src ids [] = Inr rows" by auto
  from routes_loop_ids [OF loop]
  have "set (map route_id rows) = set (filter (both_found src) ids)" by simp
  with assms(3) have mem: "rid \<in> route_id ` set rows \<longleftrightarrow> both_found src rid" by auto
  have bf: "both_found src rid \<longleftrightarrow>
        (\<exists>rd pd. resolved_route src rid = Inr rd \<and> resolved_packages src rid = Inr pd
               \<and> truthy rd \<and> truthy pd)"
    by (auto simp: both_found_def split: sum.splits)
  from mem bf show ?thesis by auto
qed

theorem route_emitted_iff_both_found_witness:
  "\<exists>rows. aggregate_routes example_sources = Inr rows
      \<and> ''R1'' \<in> route_id ` set rows \<and> ''R2'' \<notin> route_id ` set rows"
proof -
  have "\<not> isl (aggregate_routes example_sources)" by code_simp
  then obtain rows where rows: "aggregate_routes example_sources = Inr rows"
    using not_isl_Inr by blast
  have ids: "all_route_ids_to_process example_sources = Inr [''R1'', ''R2'']" by code_simp
  have r1: "resolved_route example_sources ''R1'' = Inr example_route" by code_simp
  have p1: "resolved_packages example_sources ''R1'' = Inr example_packages" by code_simp
  have p2: "resolved_packages example_sources ''R2'' = Inr JNull" by code_simp
  have t: "truthy example_route" "truthy example_packages"
    by (simp_all add: example_route_def example_packages_def)
  have "''R1'' \<in> route_id ` set rows"
    using route_emitted_iff_both_found [OF rows ids, of "''R1''"] r1 p1 t by auto
  moreover have "''R2'' \<notin> route_id ` set rows"
    using route_emitted_iff_both_found [OF rows ids, of "''R2''"] p2 by auto
  ultimately show ?thesis using rows by blast
qed

text \<open>
  The record \<^verbatim>\<open>a.get(rid) or b.get(rid) or c.get(rid)\<close> resolves to, whenever the
  expression returns, is the one first-found-wins precedence selects; and the
  expression returns when the three documents are mappings.
\<close>

lemma resolve_precedence:
  assumes "resolve b a e rid = Inr v"
  shows "v = precedence_record b a e rid"
proof -
  from assms obtain bd where b: "b = JObj bd" by (cases b) (auto simp: resolve_def ebind_def)
  show ?thesis
  proof (cases "truthy (dict_get bd rid)")
    case True
    with assms b show ?thesis
      by (auto simp: resolve_def ebind_def precedence_record_def first_found_def doc_lookup_def)
  next
    case nb: False
    with assms b obtain ad where a: "a = JObj ad"
      by (cases a) (auto simp: resolve_def ebind_def)
    show ?thesis
    proof (cases "truthy (dict_get ad rid)")
      case True
      with assms b a nb show ?thesis
        by (auto simp: resolve_def ebind_def precedence_record_def first_found_def doc_lookup_def)
    next
      case na: False
      with assms b a nb obtain ed where e: "e = JObj ed"
        by (cases e) (auto simp: resolve_def ebind_def)
      with assms b a nb na show ?thesis
        by (auto simp: resolve_def ebind_def precedence_record_def first_found_def doc_lookup_def)
    qed
  qed
qed

lemma resolve_total:
  assumes "is_dict b" and "is_dict a" and "is_dict e"
  shows "resolve b a e rid = Inr (precedence_record b a e rid)"
proof -
  from assms obtain bd ad ed where "b = JObj bd" "a = JObj ad" "e = JObj ed"
    by (cases b; cases a; cases e) auto
  then have "\<exists>v. resolve b a e rid = Inr v"
    by (simp add: resolve_def ebind_def)
  with resolve_precedence show ?thesis by blast
qed

text \<open>The record selected is the first candidate that is found, when there is one.\<close>

lemma precedence_record_found:
  "truthy (precedence_record b a e rid) \<Longrightarrow>
   first_found [doc_lookup b rid, doc_lookup a rid, doc_lookup e rid]
     = Some (precedence_record b a e rid)"
  by (auto simp: precedence_record_def first_found_def split: if_splits)

text \<open>
  C4. For every route identifier, each of the three partial records the loop body
  resolves (route details, package details, sequence details) is, whenever the lookup
  returns, the record first-found-wins precedence selects across the build, apply and
  eval locations in that order, and the lookup returns when the three documents are
  mappings. Whenever the aggregation returns, every record of the output is what
  \<^verbatim>\<open>process_single_route_data\<close> computes from these three records of its route
  identifier, of which the route details and the package details are the first found.
\<close>

theorem first_found_wins_precedence:
  "(\<forall>v. resolved_route src rid = Inr v \<longrightarrow>
        v = precedence_record (route_data_build src) (route_data_apply src)
              (route_data_eval src) rid)
   \<and> (\<forall>v. resolved_packages src rid = Inr v \<longrightarrow>
        v = precedence_record (package_data_build src) (package_data_apply src)
              (package_data_eval src) rid)
   \<and> (\<forall>v. resolved_sequences src rid = Inr v \<longrightarrow>
        v = precedence_record (actual_sequences_build src) (actual_sequences_apply src)
              (actual_sequences_eval src) rid)
   \<and> (is_dict (route_data_build src) \<and> is_dict (route_data_apply src)
        \<and> is_dict (route_data_eval src) \<longrightarrow>
        resolved_route src rid
          = Inr (precedence_record (route_data_build src) (route_data_apply src)
                   (route_data_eval src) rid))
   \<and> (is_dict (package_data_build src) \<and> is_dict (package_data_apply src)
        \<and> is_dict (package_data_eval src) \<longrightarrow>
        resolved_packages src rid
          = Inr (precedence_record (package_data_build src) (package_data_apply src)
                   (package_data_eval src) rid))
   \<and> (is_dict (actual_sequences_build src) \<and> is_dict (actual_sequences_apply src)
        \<and> is_dict (actual_sequences_eval src) \<longrightarrow>
        resolved_sequences src rid
          = Inr (precedence_record (actual_sequences_build src) (actual_sequences_apply src)
                   (actual_sequences_eval src) rid))
   \<and> (\<forall>rows r. aggregate_routes src = Inr rows \<and> r \<in> set rows \<longrightarrow>
        process_single_route_data (route_id r)
          (precedence_record (route_data_build src) (route_data_apply src)
             (route_data_eval src) (route_id r))
          (precedence_record (package_data_build src) (package_data_apply src)
             (package_data_eval src) (route_id r))
          (precedence_record (actual_sequences_build src) (actual_sequences_apply src)
             (actual_sequences_eval src) (route_id r)) = Inr r
        \<and> first_found [doc_lookup (route_data_build src) (route_id r),
                        doc_lookup (route_data_apply src) (route_id r),
                        doc_lookup (route_data_eval src) (route_id r)]
            = Some (precedence_record (route_data_build src) (route_data_apply src)
                      (route_data_eval src) (route_id r))
        \<and> first_found [doc_lookup (package_data_build src) (route_id r),
                        doc_lookup (package_data_apply src) (route_id r),
                        doc_lookup (package_data_eval src) (route_id r)]
            = Some (precedence_record (package_data_build src) (package_data_apply src)
                      (package_data_eval src) (route_id r)))"
proof -
  have emitted:
    "process_single_route_data (route_id r)
       (precedence_record (route_data_build src) (route_data_apply src)
          (route_data_eval src) (route_id r))
       (precedence_record (package_data_build src) (package_data_apply src)
          (package_data_eval src) (route_id r))
       (precedence_record (actual_sequences_build src) (actual_sequences_apply src)
          (actual_sequences_eval src) (route_id r)) = Inr r
     \<and> first_found [doc_lookup (route_data_build src) (route_id r),
                     doc_lookup (route_data_apply src) (route_id r),
                     doc_lookup (route_data_eval src) (route_id r)]
         = Some (precedence_record (route_data_build src) (route_data_apply src)
                   (route_data_eval src) (route_id r))
     \<and> first_found [doc_lookup (package_data_build src) (route_id r),
                     doc_lookup (package_data_apply src) (route_id r),
                     doc_lookup (package_data_eval src) (route_id r)]
         = Some (precedence_record (package_data_build src) (package_data_apply src)
                   (package_data_eval src) (route_id r))"
    if "aggregate_routes src = Inr rows \<and> r \<in> set rows" for rows r
  proof -
    from that aggregate_routes_loop obtain ids where
      loop: "routes_loop src ids [] = Inr rows" by blast
    from that have mem: "r \<in> set rows" by simp
    from routes_loop_member [OF loop mem] obtain rid' rd pd sq where
      rr: "resolved_route src rid' = Inr rd" and rp: "resolved_packages src rid' = Inr pd" and
      rs: "resolved_sequences src rid' = Inr sq" and t: "truthy rd" "truthy pd" and
      m: "process_single_route_data rid' rd pd sq = Inr r"
      by auto
    from psrd_route_id [OF m] have rid': "rid' = route_id r" by simp
    note rd = resolve_precedence [OF rr [unfolded resolved_route_def]]
    note pd = resolve_precedence [OF rp [unfolded resolved_packages_def]]
    note sq = resolve_precedence [OF rs [unfolded resolved_sequences_def]]
    from m t precedence_record_found show ?thesis
      unfolding rd pd sq rid' by blast
  qed
  show ?thesis
    using resolve_precedence resolve_total emitted
    unfolding resolved_route_def resolved_packages_def resolved_sequences_def
    by (intro conjI allI impI) blast+
qed

theorem first_found_wins_precedence_witness:
  "resolved_route example_sources_eval ''R1'' = Inr example_route
   \<and> resolved_route example_sources_eval ''R3'' = Inr example_route
   \<and> resolved_route example_sources_eval ''R4'' = Inr example_other_route
   \<and> resolved_packages example_sources_eval ''R1'' = Inr example_packages
   \<and> resolved_sequences example_sources_eval ''R1'' = Inr example_sequence
   \<and> resolved_sequences example_sources_eval ''R4'' = Inr example_sequence
   \<and> resolved_sequences example_sources_eval ''R3'' = Inr JNull
   \<and> (\<exists>rows r. aggregate_routes example_sources_eval = Inr rows \<and> r \<in> set rows
         \<and> process_single_route_data ''R3'' example_route example_packages JNull = Inr r)"
proof -
  let ?s = example_sources_eval
  have d: "is_dict (route_data_build ?s) \<and> is_dict (route_data_apply ?s)
           \<and> is_dict (route_data_eval ?s)"
    "is_dict (package_data_build ?s) \<and> is_dict (package_data_apply ?s)
           \<and> is_dict (package_data_eval ?s)"
    "is_dict (actual_sequences_build ?s) \<and> is_dict (actual_sequences_apply ?s)
           \<and> is_dict (actual_sequences_eval ?s)"
    by (simp_all add: example_sources_eval_def)
  have r1: "precedence_record (route_data_build ?s) (route_data_apply ?s) (route_data_eval ?s)
              ''R1'' = example_route" by code_simp
  have r3: "precedence_record (route_data_build ?s) (route_data_apply ?s) (route_data_eval ?s)
              ''R3'' = example_route" by code_simp
  have r4: "precedence_record (route_data_build ?s) (route_data_apply ?s) (route_data_eval ?s)
              ''R4'' = example_other_route" by code_simp
  have p1: "precedence_record (package_data_build ?s) (package_data_apply ?s)
              (package_data_eval ?s) ''R1'' = example_packages" by code_simp
  have p3: "precedence_record (package_data_build ?s) (package_data_apply ?s)
              (package_data_eval ?s) ''R3'' = example_packages" by code_simp
  have s1: "precedence_record (actual_sequences_build ?s) (actual_sequences_apply ?s)
              (actual_sequences_eval ?s) ''R1'' = example_sequence" by code_simp
  have s3: "precedence_record (actual_sequences_build ?s) (actual_sequences_apply ?s)
              (actual_sequences_eval ?s) ''R3'' = JNull" by code_simp
  have s4: "precedence_record (actual_sequences_build ?s) (actual_sequences_apply ?s)
              (actual_sequences_eval ?s) ''R4'' = example_sequence" by code_simp
  have "case aggregate_routes ?s of
          Inr rows \<Rightarrow> ''R3'' \<in> route_id ` set rows | Inl e \<Rightarrow> False"
    by code_simp
  then obtain rows r where rows: "aggregate_routes ?s = Inr rows" and
    r: "r \<in> set rows" "route_id r = ''R3''"
    by (auto split: sum.splits)
  from first_found_wins_precedence [of ?s "''R1''"] d
  have a1: "resolved_route ?s ''R1'' = Inr example_route"
    "resolved_packages ?s ''R1'' = Inr example_packages"
    "resolved_sequences ?s ''R1'' = Inr example_sequence"
    unfolding r1 p1 s1 by blast+
  from first_found_wins_precedence [of ?s "''R3''"] d
  have a3: "resolved_route ?s ''R3'' = Inr example_route"
    "resolved_sequences ?s ''R3'' = Inr JNull"
    unfolding r3 s3 by blast+
  from first_found_wins_precedence [of ?s "''R4''"] d
  have a4: "resolved_route ?s ''R4'' = Inr example_other_route"
    "resolved_sequences ?s ''R4'' = Inr example_sequence"
    unfolding r4 s4 by blast+
  from first_found_wins_precedence [of ?s] rows r(1)
  have "process_single_route_data (route_id r)
          (precedence_record (route_data_build ?s) (route_data_apply ?s)
             (route_data_eval ?s) (route_id r))
          (precedence_record (package_data_build ?s) (package_data_apply ?s)
             (package_data_eval ?s) (route_id r))
          (precedence_record (actual_sequences_build ?s) (actual_sequences_apply ?s)
             (actual_sequences_eval ?s) (route_id r)) = Inr r"
    by blast
  then have "process_single_route_data ''R3'' example_route example_packages JNull = Inr r"
    unfolding r(2) r3 p3 s3 .
  with rows r(1) a1 a3 a4 show ?thesis by blast
qed

section \<open>Properties of the ZIP code loader\<close>

text \<open>
  A string passes the filter after zero-filling exactly when it has at most five
  characters, all of them digits in the sense of \<^verbatim>\<open>str.isdigit\<close>.
\<close>

lemma zfill_accepts:
  "length (zfill 5 s) = 5 \<and> isdigit (zfill 5 s) \<longleftrightarrow> length s \<le> 5 \<and> list_all is_digit s"
proof (cases "5 \<le> length s")
  case True
  then show ?thesis by (auto simp: zfill_def isdigit_def)
next
  case False
  have z: "is_digit CHR ''0''" "\<not> is_digit CHR ''+''" "\<not> is_digit CHR ''-''"
    by (simp_all add: is_digit_def decimal_digit_def)
  show ?thesis
  proof (cases s)
    case Nil
    with z show ?thesis by (simp add: zfill_def isdigit_def list_all_iff)
  next
    case (Cons c rest)
    with False z show ?thesis
      by (auto simp: zfill_def isdigit_def list_all_iff)
  qed
qed

lemma valid_zips_set:
  "set (valid_zips float_str col) =
     {zfill 5 (astype_str float_str c) | c.
        c \<in> set col \<and> length (zfill 5 (astype_str float_str c)) = 5
        \<and> isdigit (zfill 5 (astype_str float_str c))}"
  by (auto simp: valid_zips_def)

text \<open>
  What \<^verbatim>\<open>load_real_zip_codes\<close> returns: it never raises; from a table with a \<open>zip\<close>
  column, or otherwise a \<open>ZIP\<close> column, it returns without repetition the cells, each
  as a string with zeros put before it up to 5 characters, that have at most 5
  characters, all of them accepted by \<^verbatim>\<open>str.isdigit\<close>; it returns the empty list
  when reading the file raises and when the table has neither column.
\<close>

lemma load_real_zip_codes_returns:
  "(\<exists>zs. load_real_zip_codes float_str files filepath = Inr zs)
   \<and> (\<forall>df col. files filepath = Inr df
         \<and> (map_of df ''zip'' = Some col
            \<or> map_of df ''zip'' = None \<and> map_of df ''ZIP'' = Some col)
         \<longrightarrow> (\<exists>zs. load_real_zip_codes float_str files filepath = Inr zs \<and> distinct zs
                \<and> set zs = {replicate (5 - length s) CHR ''0'' @ s | s.
                              s \<in> astype_str float_str ` set col
                              \<and> length s \<le> 5 \<and> list_all is_digit s}))
   \<and> (\<forall>e. files filepath = Inl e \<longrightarrow> load_real_zip_codes float_str files filepath = Inr [])
   \<and> (\<forall>df. files filepath = Inr df \<and> map_of df ''zip'' = None \<and> map_of df ''ZIP'' = None
         \<longrightarrow> load_real_zip_codes float_str files filepath = Inr [])"
proof -
  have pad: "zfill 5 s = replicate (5 - length s) CHR ''0'' @ s"
    if "length s \<le> 5" "list_all is_digit s" for s
  proof (cases s)
    case Nil
    then show ?thesis by (simp add: zfill_def)
  next
    case (Cons c rest)
    with that(2) have "c \<noteq> CHR ''+''" "c \<noteq> CHR ''-''"
      by (auto simp: is_digit_def decimal_digit_def)
    with Cons show ?thesis by (simp add: zfill_def)
  qed
  have valid: "set (remdups (valid_zips float_str col)) =
        {replicate (5 - length s) CHR ''0'' @ s | s.
           s \<in> astype_str float_str ` set col \<and> length s \<le> 5 \<and> list_all is_digit s}"
    for col
    unfolding set_remdups valid_zips_set using zfill_accepts pad by (auto; metis)
  have raised: "load_real_zip_codes float_str files filepath = Inr []"
    if "files filepath = Inl e" for e
    using that by (cases e) (simp_all add: load_real_zip_codes_def)
  have nocol: "load_real_zip_codes float_str files filepath = Inr []"
    if "files filepath = Inr df \<and> map_of df ''zip'' = None \<and> map_of df ''ZIP'' = None" for df
    using that by (simp add: load_real_zip_codes_def)
  have col: "load_real_zip_codes float_str files filepath = Inr (remdups (valid_zips float_str col))"
    if "files filepath = Inr df \<and> (map_of df ''zip'' = Some col
            \<or> map_of df ''zip'' = None \<and> map_of df ''ZIP'' = Some col)" for df col
    using that by (auto simp: load_real_zip_codes_def)
  have total: "\<exists>zs. load_real_zip_codes float_str files filepath = Inr zs"
  proof (cases "files filepath")
    case (Inl e)
    with raised show ?thesis by blast
  next
    case (Inr df)
    then show ?thesis
      by (cases "map_of df ''zip''"; cases "map_of df ''ZIP''")
         (simp_all add: load_real_zip_codes_def)
  qed
  have cols: "\<exists>zs. load_real_zip_codes float_str files filepath = Inr zs \<and> distinct zs
                \<and> set zs = {replicate (5 - length s) CHR ''0'' @ s | s.
                              s \<in> astype_str float_str ` set col
                              \<and> length s \<le> 5 \<and> list_all is_digit s}"
    if "files filepath = Inr df \<and> (map_of df ''zip'' = Some col
            \<or> map_of df ''zip'' = None \<and> map_of df ''ZIP'' = Some col)" for df col
    using col [OF that] valid [of col] by simp
  from total cols raised nocol show ?thesis by blast
qed

text \<open>
  C9. The loader is to return only strings of exactly 5 numeric digits, ZIP codes:
  the code does not. On a table whose \<open>zip\<close> column holds the text \<open>1234\<close> followed by
  the superscript two (U+00B2), \<^verbatim>\<open>load_real_zip_codes\<close> returns that string among the
  ZIP codes: it has 5 characters and \<^verbatim>\<open>str.isdigit\<close> accepts the superscript two,
  which is not one of the digits \<open>0\<close> to \<open>9\<close>.
\<close>

theorem load_real_zip_codes_superscript:
  "load_real_zip_codes float_str superscript_csv ''data/us_zip_codes.csv''
     = Inr [''1234'' @ [CHR 0xB2], ''90210'']
   \<and> length (''1234'' @ [CHR 0xB2]) = 5
   \<and> isdigit (''1234'' @ [CHR 0xB2])
   \<and> \<not> list_all decimal_digit (''1234'' @ [CHR 0xB2])"
proof -
  have d: "is_digit CHR ''0''" "is_digit CHR ''1''" "is_digit CHR ''2''" "is_digit CHR ''3''"
    "is_digit CHR ''4''" "is_digit CHR ''9''" "is_digit (CHR 0xB2)"
    "\<not> decimal_digit (CHR 0xB2)"
    by (simp_all add: is_digit_def decimal_digit_def)
  then have i: "isdigit (''1234'' @ [CHR 0xB2])" "isdigit ''90210''"
    by (simp_all add: isdigit_def)
  have "valid_zips float_str [StrCell (''1234'' @ [CHR 0xB2]), StrCell ''90210'']
          = [''1234'' @ [CHR 0xB2], ''90210'']"
    using i by (simp add: valid_zips_def zfill_def)
  then have "load_real_zip_codes float_str superscript_csv ''data/us_zip_codes.csv''
               = Inr [''1234'' @ [CHR 0xB2], ''90210'']"
    by (simp add: load_real_zip_codes_def superscript_csv_def)
  with i(1) d(8) show ?thesis by simp
qed

section \<open>Properties of double rounding\<close>

text \<open>Rounding to the nearest integer keeps the order and leaves whole numbers alone.\<close>

lemma py_round_of_int: "py_round (of_int n) = n"
  by (simp add: py_round_def)

lemma py_round_mono:
  assumes "x \<le> y"
  shows "py_round x \<le> py_round y"
proof (cases "\<lfloor>x\<rfloor> = \<lfloor>y\<rfloor>")
  case True
  with assms show ?thesis by (auto simp: py_round_def Let_def)
next
  case False
  with assms have "\<lfloor>x\<rfloor> + 1 \<le> \<lfloor>y\<rfloor>" using floor_mono [OF assms] by simp
  moreover have "py_round x \<le> \<lfloor>x\<rfloor> + 1" by (simp add: py_round_def Let_def)
  moreover have "\<lfloor>y\<rfloor> \<le> py_round y" by (simp add: py_round_def Let_def)
  ultimately show ?thesis by simp
qed

text \<open>
  The exponent of a positive number scales it to a 53-bit significand, and it is the
  only exponent that does.
\<close>

lemma pow2_minus_1: "(2::rat) powi (e - 1) = 2 powi e / 2"
  by (simp add: power_int_diff)

lemma pow2_plus_1: "(2::rat) powi (e + 1) = 2 powi e * 2"
  by (simp add: power_int_add)

lemma sig_exp_bounds:
  "0 < x \<Longrightarrow> 2 ^ 52 \<le> x / 2 powi sig_exp x \<and> x / 2 powi sig_exp x < 2 ^ 53"
proof (induction x rule: sig_exp.induct)
  case (1 x)
  show ?case
  proof (cases "x < 2 ^ 52")
    case True
    with "1.prems" have e: "sig_exp x = sig_exp (2 * x) - 1"
      by (subst sig_exp.simps) simp
    from "1.IH"(1) "1.prems" True
    have "2 ^ 52 \<le> 2 * x / 2 powi sig_exp (2 * x) \<and> 2 * x / 2 powi sig_exp (2 * x) < 2 ^ 53"
      by simp
    then show ?thesis unfolding e pow2_minus_1 by (simp add: mult.commute)
  next
    case small: False
    show ?thesis
    proof (cases "2 ^ 53 \<le> x")
      case True
      with "1.prems" small have e: "sig_exp x = sig_exp (x / 2) + 1"
        by (subst sig_exp.simps) simp
      from "1.IH"(2) "1.prems" small True
      have "2 ^ 52 \<le> x / 2 / 2 powi sig_exp (x / 2) \<and> x / 2 / 2 powi sig_exp (x / 2) < 2 ^ 53"
        by simp
      then show ?thesis unfolding e pow2_plus_1 by (simp add: field_simps)
    next
      case False
      with "1.prems" small have "sig_exp x = 0" by (subst sig_exp.simps) simp
      with small False show ?thesis by simp
    qed
  qed
qed

lemma sig_exp_le:
  assumes "0 < x" and "x / 2 powi e < 2 ^ 53"
  shows "sig_exp x \<le> e"
proof (rule ccontr)
  assume "\<not> sig_exp x \<le> e"
  then have "e + 1 \<le> sig_exp x" by simp
  then have "(2::rat) powi (e + 1) \<le> 2 powi sig_exp x" by (intro power_int_increasing) simp_all
  then have "2 powi e * 2 ^ 53 \<le> 2 powi sig_exp x * (2 ^ 52 :: rat)"
    unfolding pow2_plus_1 by simp
  also from sig_exp_bounds [OF assms(1)] have "\<dots> \<le> x"
    by (simp add: pos_le_divide_eq mult.commute)
  also from assms(2) have "x < 2 powi e * 2 ^ 53"
    by (simp add: pos_divide_less_eq mult.commute)
  finally show False by simp
qed

lemma sig_exp_ge:
  assumes "0 < x" and "2 ^ 52 \<le> x / 2 powi e"
  shows "e \<le> sig_exp x"
proof (rule ccontr)
  assume "\<not> e \<le> sig_exp x"
  then have "sig_exp x + 1 \<le> e" by simp
  then have "(2::rat) powi (sig_exp x + 1) \<le> 2 powi e" by (intro power_int_increasing) simp_all
  then have "2 powi sig_exp x * 2 ^ 53 \<le> 2 powi e * (2 ^ 52 :: rat)"
    unfolding pow2_plus_1 by simp
  also from assms(2) have "\<dots> \<le> x"
    by (simp add: pos_le_divide_eq mult.commute)
  also from sig_exp_bounds [OF assms(1)] have "x < 2 powi sig_exp x * 2 ^ 53"
    by (simp add: pos_divide_less_eq mult.commute)
  finally show False by simp
qed

lemma sig_exp_unique:
  "0 < x \<Longrightarrow> 2 ^ 52 \<le> x / 2 powi e \<Longrightarrow> x / 2 powi e < 2 ^ 53 \<Longrightarrow> sig_exp x = e"
  using sig_exp_le [of x e] sig_exp_ge [of x e] by simp

lemma sig_exp_mono:
  assumes "0 < x" and "x \<le> y"
  shows "sig_exp x \<le> sig_exp y"
proof -
  from assms have y: "0 < y" by simp
  from sig_exp_bounds [OF assms(1)] have "2 ^ 52 \<le> x / 2 powi sig_exp x" by simp
  also from assms(2) have "\<dots> \<le> y / 2 powi sig_exp x" by (simp add: divide_right_mono)
  finally show ?thesis using sig_exp_ge [OF y] by simp
qed

text \<open>The nearest double of a positive number, from any exponent that fits.\<close>

lemma fl_0: "fl 0 = 0"
  by (simp add: fl_def)

lemma fl_pos_eq:
  "0 < x \<Longrightarrow> fl x = of_int (py_round (x / 2 powi sig_exp x)) * 2 powi sig_exp x"
  by (simp add: fl_def Let_def)

lemma fl_value:
  assumes "0 < x" and "2 ^ 52 \<le> x / 2 powi e" and "x / 2 powi e < 2 ^ 53"
    and "py_round (x / 2 powi e) = m"
  shows "fl x = of_int m * 2 powi e"
  using sig_exp_unique [OF assms(1-3)] assms(1,4) by (simp add: fl_pos_eq)

text \<open>Rounding to the nearest double keeps the order.\<close>

lemma fl_mono:
  assumes "0 \<le> x" and "x \<le> y"
  shows "fl x \<le> fl y"
proof (cases "x = 0")
  case True
  show ?thesis
  proof (cases "y = 0")
    case False
    with assms True have y: "0 < y" by simp
    from sig_exp_bounds [OF y] have "of_int 0 \<le> y / 2 powi sig_exp y" by simp
    from py_round_mono [OF this] have "0 \<le> py_round (y / 2 powi sig_exp y)"
      by (simp only: py_round_of_int)
    with True y show ?thesis by (simp add: fl_pos_eq fl_0)
  qed (use True in simp)
next
  case False
  with assms have x: "0 < x" and y: "0 < y" by simp_all
  let ?ex = "sig_exp x" and ?ey = "sig_exp y"
  note bnd_x = sig_exp_bounds [OF x] and bnd_y = sig_exp_bounds [OF y]
  show ?thesis
  proof (cases "?ex = ?ey")
    case True
    from assms(2) have "x / 2 powi ?ey \<le> y / 2 powi ?ey" by (simp add: divide_right_mono)
    from py_round_mono [OF this]
    have "(of_int (py_round (x / 2 powi ?ey)) :: rat) \<le> of_int (py_round (y / 2 powi ?ey))"
      by simp
    then have "of_int (py_round (x / 2 powi ?ey)) * (2::rat) powi ?ey
               \<le> of_int (py_round (y / 2 powi ?ey)) * 2 powi ?ey"
      by (intro mult_right_mono) simp_all
    with True x y show ?thesis by (simp add: fl_pos_eq)
  next
    case False
    with sig_exp_mono [OF x assms(2)] have lt: "?ex + 1 \<le> ?ey" by simp
    from bnd_x have "x / 2 powi ?ex \<le> of_int (2 ^ 53)" by simp
    from py_round_mono [OF this] have "py_round (x / 2 powi ?ex) \<le> 2 ^ 53"
      by (simp only: py_round_of_int)
    then have "(of_int (py_round (x / 2 powi ?ex)) :: rat) \<le> 2 ^ 53"
      by (metis of_int_le_iff of_int_numeral of_int_power)
    then have "fl x \<le> 2 ^ 53 * 2 powi ?ex"
      using x by (simp add: fl_pos_eq mult_right_mono)
    also have "\<dots> = 2 ^ 52 * (2::rat) powi (?ex + 1)" by (simp add: pow2_plus_1)
    also from lt have "\<dots> \<le> 2 ^ 52 * (2::rat) powi ?ey"
      by (intro mult_left_mono power_int_increasing) simp_all
    also have "\<dots> \<le> fl y"
    proof -
      from bnd_y have "of_int (2 ^ 52) \<le> y / 2 powi ?ey" by simp
      from py_round_mono [OF this] have "2 ^ 52 \<le> py_round (y / 2 powi ?ey)"
        by (simp only: py_round_of_int)
      then have "(2 ^ 52 :: rat) \<le> of_int (py_round (y / 2 powi ?ey))"
        by (metis of_int_le_iff of_int_numeral of_int_power)
      then show ?thesis using y by (simp add: fl_pos_eq mult_right_mono)
    qed
    finally show ?thesis .
  qed
qed

text \<open>The doubles of the literals and of the products the cost is made of.\<close>

lemma PRIME_MEMBER_RATIO_value: "PRIME_MEMBER_RATIO = 3152519739159347 / 4503599627370496"
  unfolding PRIME_MEMBER_RATIO_def
proof -
  have "fl (70 / 100) = of_int 6305039478318694 * 2 powi (- 53)"
    by (rule fl_value) code_simp+
  then show "fl (70 / 100) = 3152519739159347 / 4503599627370496"
    by (simp add: power_int_minus)
qed

lemma PRIME_DELAY_PROBABILITY_value: "PRIME_DELAY_PROBABILITY = 3602879701896397 / 72057594037927936"
  unfolding PRIME_DELAY_PROBABILITY_def
proof -
  have "fl (5 / 100) = of_int 7205759403792794 * 2 powi (- 57)"
    by (rule fl_value) code_simp+
  then show "fl (5 / 100) = 3602879701896397 / 72057594037927936"
    by (simp add: power_int_minus)
qed

lemma PRIME_EXPEDITED_COST_PREMIUM_value: "PRIME_EXPEDITED_COST_PREMIUM = 5404319552844595 / 4503599627370496"
  unfolding PRIME_EXPEDITED_COST_PREMIUM_def
proof -
  have "fl (12 / 10) = of_int 5404319552844595 * 2 powi (- 52)"
    by (rule fl_value) code_simp+
  then show "fl (12 / 10) = 5404319552844595 / 4503599627370496"
    by (simp add: power_int_minus)
qed

lemma fl_85_100: "fl (85 / 100) = 7656119366529843 / 9007199254740992"
proof -
  have "fl (85 / 100) = of_int 7656119366529843 * 2 powi (- 53)"
    by (rule fl_value) code_simp+
  then show "fl (85 / 100) = 7656119366529843 / 9007199254740992"
    by (simp add: power_int_minus)
qed

lemma fl_9_10: "fl (9 / 10) = 8106479329266893 / 9007199254740992"
proof -
  have "fl (9 / 10) = of_int 8106479329266893 * 2 powi (- 53)"
    by (rule fl_value) code_simp+
  then show "fl (9 / 10) = 8106479329266893 / 9007199254740992"
    by (simp add: power_int_minus)
qed

lemma fl_11_10: "fl (11 / 10) = 2476979795053773 / 2251799813685248"
proof -
  have "fl (11 / 10) = of_int 4953959590107546 * 2 powi (- 52)"
    by (rule fl_value) code_simp+
  then show "fl (11 / 10) = 2476979795053773 / 2251799813685248"
    by (simp add: power_int_minus)
qed

lemma fl_low: "fl (8106479329266893 / 9007199254740992) = 8106479329266893 / 9007199254740992"
proof -
  have "fl (8106479329266893 / 9007199254740992) = of_int 8106479329266893 * 2 powi (- 53)"
    by (rule fl_value) code_simp+
  then show "fl (8106479329266893 / 9007199254740992) = 8106479329266893 / 9007199254740992"
    by (simp add: power_int_minus)
qed

lemma fl_high: "fl (2476979795053773 / 2251799813685248) = 2476979795053773 / 2251799813685248"
proof -
  have "fl (2476979795053773 / 2251799813685248) = of_int 4953959590107546 * 2 powi (- 52)"
    by (rule fl_value) code_simp+
  then show "fl (2476979795053773 / 2251799813685248) = 2476979795053773 / 2251799813685248"
    by (simp add: power_int_minus)
qed

lemma fl_width: "fl (1801439850948199 / 9007199254740992) = 1801439850948199 / 9007199254740992"
proof -
  have "fl (1801439850948199 / 9007199254740992) = of_int 7205759403792796 * 2 powi (- 55)"
    by (rule fl_value) code_simp+
  then show "fl (1801439850948199 / 9007199254740992) = 1801439850948199 / 9007199254740992"
    by (simp add: power_int_minus)
qed

lemma fl_width_last: "fl (1801439850948199 / 9007199254740992 * (1 - 1 / 2 ^ 53)) = 7205759403792795 / 36028797018963968"
proof -
  have "fl (1801439850948199 / 9007199254740992 * (1 - 1 / 2 ^ 53)) = of_int 7205759403792795 * 2 powi (- 55)"
    by (rule fl_value) code_simp+
  then show "fl (1801439850948199 / 9007199254740992 * (1 - 1 / 2 ^ 53)) = 7205759403792795 / 36028797018963968"
    by (simp add: power_int_minus)
qed

lemma fl_low_plus_last: "fl (8106479329266893 / 9007199254740992 + 7205759403792795 / 36028797018963968) = 2476979795053773 / 2251799813685248"
proof -
  have "fl (8106479329266893 / 9007199254740992 + 7205759403792795 / 36028797018963968) = of_int 4953959590107546 * 2 powi (- 52)"
    by (rule fl_value) code_simp+
  then show "fl (8106479329266893 / 9007199254740992 + 7205759403792795 / 36028797018963968) = 2476979795053773 / 2251799813685248"
    by (simp add: power_int_minus)
qed

lemma fl_base: "fl (5 * (5404319552844595 / 4503599627370496)) = 6"
proof -
  have "fl (5 * (5404319552844595 / 4503599627370496)) = of_int 6755399441055744 * 2 powi (- 50)"
    by (rule fl_value) code_simp+
  then show ?thesis
    by (simp add: power_int_minus)
qed

lemma fl_cost_low: "fl (6 * (8106479329266893 / 9007199254740992)) = 3039929748475085 / 562949953421312"
proof -
  have "fl (6 * (8106479329266893 / 9007199254740992)) = of_int 6079859496950170 * 2 powi (- 50)"
    by (rule fl_value) code_simp+
  then show "fl (6 * (8106479329266893 / 9007199254740992)) = 3039929748475085 / 562949953421312"
    by (simp add: power_int_minus)
qed

lemma fl_cost_high: "fl (6 * (2476979795053773 / 2251799813685248)) = 7430939385161319 / 1125899906842624"
proof -
  have "fl (6 * (2476979795053773 / 2251799813685248)) = of_int 7430939385161319 * 2 powi (- 50)"
    by (rule fl_value) code_simp+
  then show "fl (6 * (2476979795053773 / 2251799813685248)) = 7430939385161319 / 1125899906842624"
    by (simp add: power_int_minus)
qed

lemma fl_54_10: "fl (54 / 10) = 3039929748475085 / 562949953421312"
proof -
  have "fl (54 / 10) = of_int 6079859496950170 * 2 powi (- 50)"
    by (rule fl_value) code_simp+
  then show "fl (54 / 10) = 3039929748475085 / 562949953421312"
    by (simp add: power_int_minus)
qed

lemma fl_66_10: "fl (66 / 10) = 3715469692580659 / 562949953421312"
proof -
  have "fl (66 / 10) = of_int 7430939385161318 * 2 powi (- 50)"
    by (rule fl_value) code_simp+
  then show "fl (66 / 10) = 3715469692580659 / 562949953421312"
    by (simp add: power_int_minus)
qed

lemma fl_12_10: "fl (12 / 10) = 5404319552844595 / 4503599627370496"
  using PRIME_EXPEDITED_COST_PREMIUM_value unfolding PRIME_EXPEDITED_COST_PREMIUM_def .


section \<open>Properties of one generated row\<close>

lemma add_days_Inr: "add_days a n = Inr b \<Longrightarrow> b = a + n"
  by (simp add: add_days_def split: if_splits)

lemma get_delivery_time_ge_1: "1 \<le> get_delivery_time is_prime sample"
  by (simp add: get_delivery_time_def)

text \<open>The fields of a row, when the iteration returns.\<close>

lemma gen_row_Inr:
  assumes "gen_row zips i d = Inr r"
  shows "order_id r = ''ORD-'' @ format_0d 7 (int i)"
    and "is_prime_member r = (prime_draw d < PRIME_MEMBER_RATIO)"
    and "add_days START_DATE (order_date_draw d) = Inr (order_date r)"
    and "add_days (order_date r) (get_delivery_time (is_prime_member r) (normal_draw d))
           = Inr (expected_delivery_date r)"
    and "if delayed (is_prime_member r) (delay_trial_draw d)
         then add_days (expected_delivery_date r) (delay_days_draw d) = Inr (actual_delivery_date r)
         else actual_delivery_date r = expected_delivery_date r"
    and "delivery_status r = status_of (actual_delivery_date r) (expected_delivery_date r)"
    and "carrier r = get_carrier (is_prime_member r) (carrier_draw d)"
    and "delivery_cost_to_amazon r
           = py_round2 (cost_before_rounding (carrier r) (is_prime_member r) (jitter_of d))"
  using assms
  by (auto simp: gen_row_def Let_def ebind_Inr_iff get_random_date_def split: if_splits)

text \<open>One iteration of the row loop returns on draws that are in range.\<close>

lemma get_delivery_time_le:
  assumes "sample \<le> 1000000"
  shows "get_delivery_time is_prime sample \<le> 1000001"
proof -
  from assms have "\<lfloor>sample\<rfloor> \<le> 1000000" by linarith
  moreover have "py_round sample \<le> \<lfloor>sample\<rfloor> + 1" by (simp add: py_round_def Let_def)
  ultimately have "py_round sample \<le> 1000001" by linarith
  then show ?thesis by (simp add: get_delivery_time_def)
qed

lemma gen_row_total:
  assumes "draws_in_range d"
  shows "\<exists>r. gen_row zips i d = Inr r"
proof -
  let ?o = "START_DATE + order_date_draw d"
  from assms have o: "add_days START_DATE (order_date_draw d) = Inr ?o" "738886 \<le> ?o" "?o \<le> 739251"
    by (simp_all add: draws_in_range_def add_days_def START_DATE_def END_DATE_def MAX_DATE_def)
  have e: "add_days ?o (get_delivery_time p (normal_draw d))
             = Inr (?o + get_delivery_time p (normal_draw d))"
    "738887 \<le> ?o + get_delivery_time p (normal_draw d)"
    "?o + get_delivery_time p (normal_draw d) \<le> 1739252" for p
    using o(2,3) assms get_delivery_time_ge_1 [of p "normal_draw d"]
      get_delivery_time_le [of "normal_draw d" p]
    by (simp_all add: draws_in_range_def add_days_def MAX_DATE_def)
  have a: "add_days (?o + get_delivery_time p (normal_draw d)) (delay_days_draw d)
             = Inr (?o + get_delivery_time p (normal_draw d) + delay_days_draw d)" for p
    using e(2,3) [of p] assms
    by (simp add: draws_in_range_def add_days_def MAX_DATE_def AVERAGE_DELAY_DAYS_def)
  show ?thesis
    by (simp add: gen_row_def Let_def get_random_date_def ebind_def o(1) e(1) a)
qed

lemma example_draws_in_range: "draws_in_range example_draws"
  by (simp add: draws_in_range_def example_draws_def START_DATE_def END_DATE_def
        AVERAGE_DELAY_DAYS_def)

lemma example_is_prime: "prime_draw example_draws < PRIME_MEMBER_RATIO"
  by (simp add: example_draws_def PRIME_MEMBER_RATIO_value)

lemma example_delayed: "delayed True (delay_trial_draw example_draws)"
  by (simp add: delayed_def example_draws_def PRIME_DELAY_PROBABILITY_value)

lemma example_carrier: "get_carrier True (carrier_draw example_draws) = ''AMZL''"
proof -
  have "\<not> fl (85 / 100) \<le> fl (0 * t)" for t
    by (simp only: mult_zero_left fl_0 fl_85_100)
  then have "choices PRIME_CARRIER_DIST 0 = ''AMZL''"
    unfolding choices_def cum_weights_def PRIME_CARRIER_DIST_def Let_def
    by (simp only: list.map snd_conv fst_conv list.case butlast.simps takeWhile.simps
          running_sums.simps list.size if_False nth_Cons_0 list.distinct if_True)
  then show ?thesis by (simp add: get_carrier_def example_draws_def)
qed

text \<open>
  C5. For every row the generator produces, whatever values are drawn (the delay being
  a value of \<^verbatim>\<open>random.randint(1, AVERAGE_DELAY_DAYS)\<close>), the actual delivery date is not
  before the expected one: it is the expected date, or the expected date plus the
  delay, between 1 and the configured maximum of days. The base delivery duration is
  at least 1 day, and the expected date is the order date plus that duration.
\<close>

theorem actual_not_before_expected:
  assumes "gen_row zips i d = Inr r"
    and "1 \<le> delay_days_draw d \<and> delay_days_draw d \<le> AVERAGE_DELAY_DAYS"
  shows "expected_delivery_date r \<le> actual_delivery_date r
       \<and> (actual_delivery_date r = expected_delivery_date r
          \<or> actual_delivery_date r = expected_delivery_date r + delay_days_draw d
            \<and> 1 \<le> actual_delivery_date r - expected_delivery_date r
            \<and> actual_delivery_date r - expected_delivery_date r \<le> AVERAGE_DELAY_DAYS)
       \<and> 1 \<le> get_delivery_time (is_prime_member r) (normal_draw d)
       \<and> expected_delivery_date r
           = order_date r + get_delivery_time (is_prime_member r) (normal_draw d)"
proof -
  note e = gen_row_Inr(4) [OF assms(1)]
  note a = gen_row_Inr(5) [OF assms(1)]
  have "actual_delivery_date r = expected_delivery_date r
        \<or> actual_delivery_date r = expected_delivery_date r + delay_days_draw d"
    using a add_days_Inr by (cases "delayed (is_prime_member r) (delay_trial_draw d)") auto
  with assms(2) add_days_Inr [OF e] get_delivery_time_ge_1 [of "is_prime_member r" "normal_draw d"]
  show ?thesis by auto
qed

theorem actual_not_before_expected_witness:
  "\<exists>r. gen_row [] 7 example_draws = Inr r
      \<and> expected_delivery_date r = 738897 \<and> actual_delivery_date r = 738899"
proof -
  from gen_row_total [OF example_draws_in_range] obtain r where
    r: "gen_row [] 7 example_draws = Inr r" by blast
  have c: "1 \<le> delay_days_draw example_draws \<and> delay_days_draw example_draws \<le> AVERAGE_DELAY_DAYS"
    by (simp add: example_draws_def AVERAGE_DELAY_DAYS_def)
  have p: "is_prime_member r"
    using gen_row_Inr(2) [OF r] example_is_prime by simp
  have o: "order_date r = 738895"
    using gen_row_Inr(3) [OF r]
    by (simp add: example_draws_def add_days_def START_DATE_def MAX_DATE_def)
  have g: "get_delivery_time True (normal_draw example_draws) = 2" by code_simp
  from actual_not_before_expected [OF r c] p o g
  have e: "expected_delivery_date r = 738897" by simp
  from gen_row_Inr(5) [OF r] p example_delayed
  have "add_days (expected_delivery_date r) (delay_days_draw example_draws)
          = Inr (actual_delivery_date r)" by simp
  from add_days_Inr [OF this] e have "actual_delivery_date r = 738899"
    by (simp add: example_draws_def)
  with r e show ?thesis by blast
qed

text \<open>
  C6. For every row the generator produces, the delivery status follows from comparing
  the actual with the expected delivery date: \<open>Early\<close> exactly when the actual date is
  strictly earlier, \<open>On-Time\<close> exactly when the two are equal, \<open>Late\<close> exactly when the
  actual date is strictly later. With the expected date 2024-01-10, the actual date
  2024-01-10 gives \<open>On-Time\<close> and the actual date 2024-01-12 gives \<open>Late\<close>.
\<close>

theorem delivery_status_by_comparison:
  assumes "gen_row zips i d = Inr r"
  shows "(delivery_status r = ''Early'' \<longleftrightarrow> actual_delivery_date r < expected_delivery_date r)
       \<and> (delivery_status r = ''On-Time'' \<longleftrightarrow> actual_delivery_date r = expected_delivery_date r)
       \<and> (delivery_status r = ''Late'' \<longleftrightarrow> expected_delivery_date r < actual_delivery_date r)
       \<and> status_of 738895 738895 = ''On-Time''
       \<and> status_of 738897 738895 = ''Late''"
proof -
  have "''Early'' \<noteq> ''On-Time''" "''Early'' \<noteq> ''Late''" "''On-Time'' \<noteq> ''Late''"
    by simp_all
  with gen_row_Inr(6) [OF assms] show ?thesis
    unfolding status_of_def by (auto split: if_splits)
qed

theorem delivery_status_by_comparison_witness:
  "\<exists>r. gen_row [] 7 (example_draws\<lparr>delay_trial_draw := 1 / 2\<rparr>) = Inr r
      \<and> delivery_status r = ''On-Time''"
proof -
  let ?d = "example_draws\<lparr>delay_trial_draw := 1 / 2\<rparr>"
  have "draws_in_range ?d"
    using example_draws_in_range by (simp add: draws_in_range_def)
  from gen_row_total [OF this] obtain r where r: "gen_row [] 7 ?d = Inr r" by blast
  have p: "is_prime_member r"
    using gen_row_Inr(2) [OF r] example_is_prime by simp
  have "\<not> delayed True (1 / 2)"
    by (simp add: delayed_def PRIME_DELAY_PROBABILITY_value)
  with gen_row_Inr(5) [OF r] p have "actual_delivery_date r = expected_delivery_date r"
    by simp
  with delivery_status_by_comparison [OF r] have "delivery_status r = ''On-Time''" by blast
  with r show ?thesis by blast
qed

text \<open>
  \<^verbatim>\<open>random.uniform(0.9, 1.1)\<close> returns a double from the double 0.9 to the double 1.1,
  both included, whatever \<^verbatim>\<open>random()\<close> returns in its range.
\<close>

lemma jitter_bounds:
  assumes "0 \<le> r" and "r < 1"
  shows "fl (9 / 10) \<le> uniform (fl (9 / 10)) (fl (11 / 10)) r
       \<and> uniform (fl (9 / 10)) (fl (11 / 10)) r \<le> fl (11 / 10)"
proof -
  let ?A = "8106479329266893 / 9007199254740992 :: rat"
  let ?B = "2476979795053773 / 2251799813685248 :: rat"
  let ?D = "1801439850948199 / 9007199254740992 :: rat"
  have diff: "?B - ?A = ?D" by simp
  have sum: "?A + ?D = ?B" by simp
  have u: "uniform ?A ?B r = fl (?A + fl (?D * r))"
    unfolding uniform_def diff fl_width ..
  from assms have "0 \<le> ?D * r" "?D * r \<le> ?D" by simp_all
  from fl_mono [OF order_refl this(1)] fl_mono [OF this]
  have w: "0 \<le> fl (?D * r)" "fl (?D * r) \<le> ?D"
    unfolding fl_0 fl_width by simp_all
  have "fl ?A \<le> fl (?A + fl (?D * r))"
    by (rule fl_mono) (use w in simp_all)
  then have lo: "?A \<le> fl (?A + fl (?D * r))"
    unfolding fl_low .
  have "fl (?A + fl (?D * r)) \<le> fl (?A + ?D)"
    by (rule fl_mono) (use w in simp_all)
  then have hi: "fl (?A + fl (?D * r)) \<le> ?B"
    unfolding sum fl_high .
  show ?thesis unfolding fl_9_10 fl_11_10 u by (rule conjI [OF lo hi])
qed

text \<open>
  The cost of an \<open>AMZL\<close> package for a prime member before rounding: the double product
  of 5.00, 1.2 and the jitter, between the doubles 5.4 and 6.6000000000000005.
\<close>

lemma cost_amzl_prime:
  "cost_before_rounding ''AMZL'' True u = fl (fl (5 * fl (12 / 10)) * u)"
  by (simp add: cost_before_rounding_def Let_def BASE_AMZL_COST_PER_PACKAGE_def
        PRIME_EXPEDITED_COST_PREMIUM_def)

lemma cost_amzl_prime_bounds:
  assumes "fl (9 / 10) \<le> u" and "u \<le> fl (11 / 10)"
  shows "3039929748475085 / 562949953421312 \<le> cost_before_rounding ''AMZL'' True u
       \<and> cost_before_rounding ''AMZL'' True u \<le> 7430939385161319 / 1125899906842624"
proof -
  let ?A = "8106479329266893 / 9007199254740992 :: rat"
  let ?B = "2476979795053773 / 2251799813685248 :: rat"
  have c: "cost_before_rounding ''AMZL'' True u = fl (6 * u)"
    unfolding cost_amzl_prime fl_12_10 fl_base ..
  from assms have a: "?A \<le> u" "u \<le> ?B" unfolding fl_9_10 fl_11_10 by simp_all
  then have "0 \<le> 6 * ?A" "6 * ?A \<le> 6 * u" "0 \<le> 6 * u" "6 * u \<le> 6 * ?B" by simp_all
  from fl_mono [OF this(1,2)] fl_mono [OF this(3,4)]
  show ?thesis unfolding c fl_cost_low fl_cost_high by simp
qed

text \<open>
  Rounding a cost in that range to 2 decimals gives a whole number of hundredths from
  5.40 to 6.60, as the double nearest to it.
\<close>

lemma stored_cost_bounds:
  assumes "3039929748475085 / 562949953421312 \<le> c"
    and "c \<le> 7430939385161319 / 1125899906842624"
  shows "\<exists>k. 540 \<le> k \<and> k \<le> 660 \<and> py_round2 c = fl (of_int k / 100)
           \<and> fl (54 / 10) \<le> py_round2 c \<and> py_round2 c \<le> fl (66 / 10)"
proof -
  let ?k = "py_round (c * 100)"
  have lo: "py_round (3039929748475085 / 562949953421312 * 100) = 540" by code_simp
  have hi: "py_round (7430939385161319 / 1125899906842624 * 100) = 660" by code_simp
  from assms have "3039929748475085 / 562949953421312 * 100 \<le> c * 100"
    "c * 100 \<le> 7430939385161319 / 1125899906842624 * 100" by simp_all
  from py_round_mono [OF this(1)] py_round_mono [OF this(2)]
  have k: "540 \<le> ?k" "?k \<le> 660" unfolding lo hi by simp_all
  then have "(of_int 540 :: rat) \<le> of_int ?k" "(of_int ?k :: rat) \<le> of_int 660"
    by (simp_all only: of_int_le_iff)
  then have q: "(54 / 10 :: rat) \<le> of_int ?k / 100" "(of_int ?k / 100 :: rat) \<le> 66 / 10"
    by simp_all
  have "(0::rat) \<le> 54 / 10" by simp
  from fl_mono [OF this q(1)] have l: "fl (54 / 10) \<le> py_round2 c"
    by (simp only: py_round2_def)
  from q have "(0::rat) \<le> of_int ?k / 100" by simp
  from fl_mono [OF this q(2)] have h: "py_round2 c \<le> fl (66 / 10)"
    by (simp only: py_round2_def)
  have "py_round2 c = fl (of_int ?k / 100)" by (simp only: py_round2_def)
  with k l h show ?thesis by blast
qed

text \<open>
  C7, as stated, fails: the row generated from the draws \<open>overshoot_draws\<close> has carrier
  \<open>AMZL\<close> and a prime member, its jitter draw is a value of \<^verbatim>\<open>random()\<close>, and its
  cost before rounding is the double 6.6000000000000005, above 6.60.
\<close>

theorem amzl_prime_cost_exceeds_660:
  "\<not> isl (gen_row [] 7 overshoot_draws)
   \<and> carrier (projr (gen_row [] 7 overshoot_draws)) = ''AMZL''
   \<and> is_prime_member (projr (gen_row [] 7 overshoot_draws))
   \<and> 0 \<le> jitter_draw overshoot_draws \<and> jitter_draw overshoot_draws < 1
   \<and> jitter_of overshoot_draws = fl (11 / 10)
   \<and> \<not> cost_before_rounding (carrier (projr (gen_row [] 7 overshoot_draws)))
          (is_prime_member (projr (gen_row [] 7 overshoot_draws)))
          (jitter_of overshoot_draws) \<le> 66 / 10"
proof -
  let ?A = "8106479329266893 / 9007199254740992 :: rat"
  let ?B = "2476979795053773 / 2251799813685248 :: rat"
  let ?D = "1801439850948199 / 9007199254740992 :: rat"
  have "draws_in_range overshoot_draws"
    using example_draws_in_range by (simp add: draws_in_range_def overshoot_draws_def)
  from gen_row_total [OF this] obtain r where r: "gen_row [] 7 overshoot_draws = Inr r" by blast
  have p: "is_prime_member r"
    using gen_row_Inr(2) [OF r] example_is_prime by (simp add: overshoot_draws_def)
  have a: "carrier r = ''AMZL''"
    using gen_row_Inr(7) [OF r] p example_carrier by (simp add: overshoot_draws_def)
  have diff: "?B - ?A = ?D" by simp
  have "jitter_draw overshoot_draws = 1 - 1 / 2 ^ 53"
    by (simp add: overshoot_draws_def)
  then have "jitter_of overshoot_draws
          = fl (fl (9 / 10) + fl (fl (fl (11 / 10) - fl (9 / 10)) * (1 - 1 / 2 ^ 53)))"
    unfolding jitter_of_def uniform_def by (rule arg_cong)
  also have "\<dots> = fl (?A + fl (?D * (1 - 1 / 2 ^ 53)))"
    unfolding fl_9_10 fl_11_10 diff fl_width ..
  also have "\<dots> = ?B"
    unfolding fl_width_last by (rule fl_low_plus_last)
  finally have j: "jitter_of overshoot_draws = ?B" .
  have "cost_before_rounding ''AMZL'' True ?B = fl (6 * ?B)"
    unfolding cost_amzl_prime fl_12_10 fl_base ..
  then have c: "cost_before_rounding ''AMZL'' True ?B = 7430939385161319 / 1125899906842624"
    unfolding fl_cost_high .
  have e: "cost_before_rounding (carrier r) (is_prime_member r) (jitter_of overshoot_draws)
             = cost_before_rounding ''AMZL'' True ?B"
    unfolding j using a p by simp
  have cc: "\<not> cost_before_rounding (carrier r) (is_prime_member r) (jitter_of overshoot_draws)
               \<le> 66 / 10"
    unfolding e c by simp
  have rng: "0 \<le> jitter_draw overshoot_draws" "jitter_draw overshoot_draws < 1"
    by (simp_all add: overshoot_draws_def)
  have jj: "jitter_of overshoot_draws = fl (11 / 10)"
    unfolding fl_11_10 by (rule j)
  have n: "\<not> isl (gen_row [] 7 overshoot_draws)" and pr: "projr (gen_row [] 7 overshoot_draws) = r"
    using r by simp_all
  show ?thesis unfolding pr using n a p rng jj cc by blast
qed

text \<open>
  C7, amended. For every row the generator produces with carrier \<open>AMZL\<close> and a prime
  member, the jitter draw being a value of \<^verbatim>\<open>random()\<close>: the jitter is a double from
  0.9 to 1.1; the cost before the final rounding is the double product of 5.00, 1.2
  and the jitter and lies from 5.40 to the double 6.6000000000000005, one unit in the
  last place above 6.60; the stored cost is that value rounded to 2 decimals, a whole
  number of hundredths from 5.40 to 6.60 as a double.
\<close>

theorem amzl_prime_cost_in_doubles:
  assumes "gen_row zips i d = Inr r"
    and "carrier r = ''AMZL''"
    and "is_prime_member r"
    and "0 \<le> jitter_draw d \<and> jitter_draw d < 1"
  shows "fl (9 / 10) \<le> jitter_of d \<and> jitter_of d \<le> fl (11 / 10)
       \<and> cost_before_rounding (carrier r) (is_prime_member r) (jitter_of d)
           = fl (fl (5 * fl (12 / 10)) * jitter_of d)
       \<and> 54 / 10 \<le> cost_before_rounding (carrier r) (is_prime_member r) (jitter_of d)
       \<and> cost_before_rounding (carrier r) (is_prime_member r) (jitter_of d)
           \<le> 7430939385161319 / 1125899906842624
       \<and> delivery_cost_to_amazon r
           = py_round2 (cost_before_rounding (carrier r) (is_prime_member r) (jitter_of d))
       \<and> (\<exists>k. 540 \<le> k \<and> k \<le> 660 \<and> delivery_cost_to_amazon r = fl (of_int k / 100))
       \<and> fl (54 / 10) \<le> delivery_cost_to_amazon r
       \<and> delivery_cost_to_amazon r \<le> fl (66 / 10)"
proof -
  let ?c = "cost_before_rounding ''AMZL'' True (jitter_of d)"
  from assms(2,3)
  have e: "cost_before_rounding (carrier r) (is_prime_member r) (jitter_of d) = ?c" by simp
  from assms(4) have j: "fl (9 / 10) \<le> jitter_of d \<and> jitter_of d \<le> fl (11 / 10)"
    unfolding jitter_of_def by (intro jitter_bounds) simp_all
  then have b: "3039929748475085 / 562949953421312 \<le> ?c"
    "?c \<le> 7430939385161319 / 1125899906842624"
    using cost_amzl_prime_bounds [of "jitter_of d"] by simp_all
  from b(1) have l: "54 / 10 \<le> ?c" by simp
  from gen_row_Inr(8) [OF assms(1)] e have s: "delivery_cost_to_amazon r = py_round2 ?c" by simp
  from stored_cost_bounds [OF b] s
  have k: "\<exists>k. 540 \<le> k \<and> k \<le> 660 \<and> delivery_cost_to_amazon r = fl (of_int k / 100)"
    and sb: "fl (54 / 10) \<le> delivery_cost_to_amazon r" "delivery_cost_to_amazon r \<le> fl (66 / 10)"
    by auto
  from j cost_amzl_prime [of "jitter_of d"] l b(2) s k sb show ?thesis
    unfolding e by blast
qed

theorem amzl_prime_cost_in_doubles_witness:
  "\<exists>r. gen_row [] 7 example_draws = Inr r \<and> carrier r = ''AMZL'' \<and> is_prime_member r
      \<and> 54 / 10 \<le> delivery_cost_to_amazon r \<and> delivery_cost_to_amazon r \<le> 66 / 10"
proof -
  from gen_row_total [OF example_draws_in_range] obtain r where
    r: "gen_row [] 7 example_draws = Inr r" by blast
  have p: "is_prime_member r"
    using gen_row_Inr(2) [OF r] example_is_prime by simp
  have a: "carrier r = ''AMZL''"
    using gen_row_Inr(7) [OF r] p example_carrier by simp
  have j: "0 \<le> jitter_draw example_draws \<and> jitter_draw example_draws < 1"
    by (simp add: example_draws_def)
  from amzl_prime_cost_in_doubles [OF r a p j]
  have "fl (54 / 10) \<le> delivery_cost_to_amazon r" "delivery_cost_to_amazon r \<le> fl (66 / 10)"
    by blast+
  then have "54 / 10 \<le> delivery_cost_to_amazon r \<and> delivery_cost_to_amazon r \<le> 66 / 10"
    unfolding fl_54_10 fl_66_10 by simp
  with r a p show ?thesis by blast
qed
section \<open>Properties of the order identifiers\<close>

lemma of_char_digit_char: "k < 10 \<Longrightarrow> (of_char (digit_char k) :: nat) = 48 + k"
  by (simp add: digit_char_def)

lemma is_digit_digit_char: "k < 10 \<Longrightarrow> is_digit (digit_char k)"
  by (simp add: is_digit_def decimal_digit_def of_char_digit_char)

lemma str_nat_digits: "list_all is_digit (str_nat n)"
proof (induction n rule: str_nat.induct)
  case (1 n)
  show ?case
  proof (cases "n < 10")
    case True
    then show ?thesis by (simp add: str_nat.simps [of n] is_digit_digit_char)
  next
    case False
    with "1" show ?thesis by (simp add: str_nat.simps [of n] is_digit_digit_char)
  qed
qed

lemma str_nat_not_Nil: "str_nat n \<noteq> []"
  by (subst str_nat.simps) simp

lemma decimal_value_snoc:
  "decimal_value (s @ [c]) = 10 * decimal_value s + (of_char c - 48)"
  by (simp add: decimal_value_def)

text \<open>Reading the decimal digits of a number gives the number back.\<close>

lemma decimal_value_str_nat: "decimal_value (str_nat n) = n"
proof (induction n rule: str_nat.induct)
  case (1 n)
  show ?case
  proof (cases "n < 10")
    case True
    then show ?thesis
      by (simp add: str_nat.simps [of n] decimal_value_def of_char_digit_char)
  next
    case False
    with "1" have "decimal_value (str_nat (n div 10)) = n div 10" by simp
    with False show ?thesis
      by (simp add: str_nat.simps [of n] decimal_value_snoc of_char_digit_char)
  qed
qed

text \<open>Zeros on the left do not change the number.\<close>

lemma decimal_value_zeros: "decimal_value (replicate k CHR ''0'' @ s) = decimal_value s"
proof -
  have "foldl (\<lambda>acc c. 10 * acc + (of_char c - 48)) 0 (replicate k CHR ''0'') = (0::nat)"
    by (induction k) simp_all
  then show ?thesis by (simp add: decimal_value_def)
qed

lemma zfill_str_nat:
  "zfill w (str_nat n) = replicate (w - length (str_nat n)) CHR ''0'' @ str_nat n"
proof (cases "str_nat n")
  case Nil
  with str_nat_not_Nil show ?thesis by blast
next
  case (Cons c rest)
  with str_nat_digits [of n] have "is_digit c" by simp
  then have "c \<noteq> CHR ''+''" "c \<noteq> CHR ''-''"
    by (auto simp: is_digit_def decimal_digit_def)
  with Cons show ?thesis by (simp add: zfill_def)
qed

lemma format_0d_nat: "format_0d w (int n) = replicate (w - length (str_nat n)) CHR ''0'' @ str_nat n"
  by (simp add: format_0d_def str_int_def zfill_str_nat)

lemma decimal_value_format_0d: "decimal_value (format_0d w (int n)) = n"
  by (simp add: format_0d_nat decimal_value_zeros decimal_value_str_nat)

lemma length_str_nat: "n < 10 ^ Suc k \<Longrightarrow> length (str_nat n) \<le> Suc k"
proof (induction k arbitrary: n)
  case 0
  then show ?case by (simp add: str_nat.simps [of n])
next
  case (Suc k)
  show ?case
  proof (cases "n < 10")
    case True
    then show ?thesis by (simp add: str_nat.simps [of n])
  next
    case False
    from Suc.prems have "n div 10 < 10 ^ Suc k" by (simp add: less_mult_imp_div_less)
    from Suc.IH [OF this] False show ?thesis by (simp add: str_nat.simps [of n])
  qed
qed

lemma length_format_0d_7: "n < 10 ^ 7 \<Longrightarrow> length (format_0d 7 (int n)) = 7"
  using length_str_nat [of n 6] by (simp add: format_0d_nat)

text \<open>The rows of the loop, in order: row \<open>k\<close> is what iteration \<open>k\<close> returns.\<close>

lemma orders_loop_Inr:
  "orders_loop zips draws is acc = Inr rows \<Longrightarrow>
   \<exists>new. rows = acc @ new \<and> length new = length is
      \<and> (\<forall>k<length is. gen_row zips (is ! k) (draws (is ! k)) = Inr (new ! k))"
proof (induction "is" arbitrary: acc)
  case Nil
  then show ?case by simp
next
  case (Cons i rest)
  from Cons.prems obtain row where
    row: "gen_row zips i (draws i) = Inr row" and
    loop: "orders_loop zips draws rest (acc @ [row]) = Inr rows"
    by (auto simp: ebind_Inr_iff)
  from Cons.IH [OF loop] obtain new where
    new: "rows = (acc @ [row]) @ new" "length new = length rest"
      "\<forall>k<length rest. gen_row zips (rest ! k) (draws (rest ! k)) = Inr (new ! k)"
    by blast
  have "\<forall>k<length (i # rest). gen_row zips ((i # rest) ! k) (draws ((i # rest) ! k))
          = Inr ((row # new) ! k)"
  proof (intro allI impI)
    fix k assume "k < length (i # rest)"
    with row new(3) show "gen_row zips ((i # rest) ! k) (draws ((i # rest) ! k))
          = Inr ((row # new) ! k)"
      by (cases k) simp_all
  qed
  with new(1,2) show ?case by (intro exI [of _ "row # new"]) simp
qed

lemma generate_rows_Inr:
  assumes "generate_rows n zips draws = Inr rows"
  shows "length rows = n" and "\<forall>k<n. gen_row zips k (draws k) = Inr (rows ! k)"
proof -
  from orders_loop_Inr [OF assms [unfolded generate_rows_def]] obtain new where
    new: "rows = [] @ new" "length new = length [0..<n]"
      "\<forall>k<length [0..<n]. gen_row zips ([0..<n] ! k) (draws ([0..<n] ! k)) = Inr (new ! k)"
    by blast
  from new(1,2) show "length rows = n" by simp
  from new show "\<forall>k<n. gen_row zips k (draws k) = Inr (rows ! k)" by simp
qed

text \<open>The loop returns when the draws of every iteration are in range.\<close>

lemma orders_loop_total:
  "\<forall>i\<in>set is. draws_in_range (draws i) \<Longrightarrow> \<exists>rows. orders_loop zips draws is acc = Inr rows"
proof (induction "is" arbitrary: acc)
  case Nil
  then show ?case by simp
next
  case (Cons i rest)
  from Cons.prems gen_row_total [of "draws i" zips i] obtain row where
    "gen_row zips i (draws i) = Inr row" by auto
  moreover from Cons have "\<exists>rows. orders_loop zips draws rest (acc @ [row]) = Inr rows" by simp
  ultimately show ?case by (simp add: ebind_def)
qed

lemma generate_orders_total:
  "\<forall>i<NUM_ORDERS. draws_in_range (draws i) \<Longrightarrow> \<exists>rows. generate_orders zips draws = Inr rows"
  unfolding generate_orders_def generate_rows_def
  by (rule orders_loop_total) simp

text \<open>
  C10. Within one run of the order generator, row \<open>i\<close> receives \<open>ORD-\<close> followed by
  \<open>i\<close> zero-filled to 7 digits; that string determines \<open>i\<close>, the configured number
  of rows, 100000, is below 10000000, up to which the number takes exactly 7
  characters, and so the order identifiers of the rows are pairwise distinct.
\<close>

theorem order_ids_distinct:
  assumes "generate_orders zips draws = Inr rows"
  shows "length rows = NUM_ORDERS
       \<and> NUM_ORDERS < 10 ^ 7
       \<and> (\<forall>i<NUM_ORDERS. order_id (rows ! i) = ''ORD-'' @ format_0d 7 (int i))
       \<and> (\<forall>i<10 ^ 7. length (format_0d 7 (int i)) = 7)
       \<and> (\<forall>i j. ''ORD-'' @ format_0d 7 (int i) = ''ORD-'' @ format_0d 7 (int j) \<longrightarrow> i = j)
       \<and> distinct (map order_id rows)"
proof -
  note rows = generate_rows_Inr [OF assms [unfolded generate_orders_def]]
  have ids: "order_id (rows ! i) = ''ORD-'' @ format_0d 7 (int i)" if "i < NUM_ORDERS" for i
    using rows(2) that gen_row_Inr(1) by blast
  have inj: "i = j" if "''ORD-'' @ format_0d 7 (int i) = ''ORD-'' @ format_0d 7 (int j)" for i j
  proof -
    from that have "decimal_value (format_0d 7 (int i)) = decimal_value (format_0d 7 (int j))"
      by simp
    then show ?thesis by (simp add: decimal_value_format_0d)
  qed
  have "distinct (map order_id rows)"
    unfolding distinct_conv_nth
  proof (intro allI impI)
    fix i j
    assume "i < length (map order_id rows)" "j < length (map order_id rows)" "i \<noteq> j"
    with rows(1) ids [of i] ids [of j] inj [of i j]
    show "map order_id rows ! i \<noteq> map order_id rows ! j" by auto
  qed
  moreover have "NUM_ORDERS < 10 ^ 7" by (simp add: NUM_ORDERS_def)
  ultimately show ?thesis using rows(1) ids inj length_format_0d_7 by blast
qed

theorem order_ids_distinct_witness:
  "\<exists>rows. generate_orders [] (\<lambda>i. example_draws) = Inr rows
      \<and> length rows = 100000 \<and> order_id (rows ! 42) = ''ORD-0000042''
      \<and> distinct (map order_id rows)"
proof -
  from generate_orders_total [of "\<lambda>i. example_draws" "[]"] example_draws_in_range
  obtain rows where rows: "generate_orders [] (\<lambda>i. example_draws) = Inr rows" by blast
  have f: "format_0d 7 (int 42) = ''0000042''" by code_simp
  from order_ids_distinct [OF rows] f
  have "length rows = 100000 \<and> order_id (rows ! 42) = ''ORD-0000042''
        \<and> distinct (map order_id rows)"
    by (simp add: NUM_ORDERS_def)
  with rows show ?thesis by blast
qed

end
